theory Spec2Isabelle
  imports Main
begin

section \<open>Strings and regular expressions of the registration page\<close>

text \<open>
  A JavaScript string is a sequence of UTF-16 code units. User-entered text (the CNPJ and
  CRM fields, names, passwords) is modelled as the list of its code units, so that every
  character a user can type is covered; program literals (object keys, MIME types) are
  ASCII and stay HOL strings. \<open>js\<close> embeds an ASCII literal.
\<close>

type_synonym jsstring = "int list"

definition js :: "string \<Rightarrow> jsstring" where
  "js cs = map of_char cs"

text \<open>
  The two patterns of \<^verbatim>\<open>src/app/register/page.tsx\<close> use literal characters, the classes
  \<^verbatim>\<open>\d\<close> and \<^verbatim>\<open>\s\<close>, the quantifiers \<^verbatim>\<open>?\<close> and \<^verbatim>\<open>{m,n}\<close>, concatenation, and the
  anchors \<^verbatim>\<open>^\<close> and \<^verbatim>\<open>$\<close> around the whole pattern (no flags).

  \<^verbatim>\<open>\d\<close> is \<^verbatim>\<open>[0-9]\<close>. \<^verbatim>\<open>\s\<close> is ECMAScript's WhiteSpace and LineTerminator: TAB, LF,
  VT, FF, CR, SPACE, NBSP, U+1680, U+2000..U+200A, U+2028, U+2029, U+202F, U+205F,
  U+3000 and U+FEFF.
\<close>

definition is_digit :: "int \<Rightarrow> bool" where
  "is_digit c \<longleftrightarrow> 48 \<le> c \<and> c \<le> 57"

definition is_space :: "int \<Rightarrow> bool" where
  "is_space c \<longleftrightarrow>
     c = 9 \<or> c = 10 \<or> c = 11 \<or> c = 12 \<or> c = 13 \<or> c = 32 \<or> c = 160 \<or> c = 5760 \<or>
     (8192 \<le> c \<and> c \<le> 8202) \<or> c = 8232 \<or> c = 8233 \<or> c = 8239 \<or> c = 8287 \<or>
     c = 12288 \<or> c = 65279"

datatype rx = Epsilon | Lit int | Digit | Space | Seq rx rx | Opt rx

text \<open>
  \<open>matches r s\<close> lists the remainders of \<open>s\<close> after every way of matching \<open>r\<close> at its
  start, in the order a backtracking matcher tries them (a greedy \<^verbatim>\<open>?\<close> takes its operand
  first).
\<close>

fun matches :: "rx \<Rightarrow> jsstring \<Rightarrow> jsstring list" where
  "matches Epsilon s = [s]"
| "matches (Lit c) s = (case s of [] \<Rightarrow> [] | x # xs \<Rightarrow> if x = c then [xs] else [])"
| "matches Digit s = (case s of [] \<Rightarrow> [] | x # xs \<Rightarrow> if is_digit x then [xs] else [])"
| "matches Space s = (case s of [] \<Rightarrow> [] | x # xs \<Rightarrow> if is_space x then [xs] else [])"
| "matches (Seq a b) s = concat (map (matches b) (matches a s))"
| "matches (Opt a) s = matches a s @ [s]"

text \<open>\<^verbatim>\<open>r{lo,hi}\<close>: \<open>lo\<close> mandatory copies, then up to \<open>hi - lo\<close> optional ones.\<close>

fun quant :: "nat \<Rightarrow> nat \<Rightarrow> rx \<Rightarrow> rx" where
  "quant lo 0 r = Epsilon"
| "quant 0 (Suc hi) r = Opt (Seq r (quant 0 hi r))"
| "quant (Suc lo) (Suc hi) r = Seq r (quant lo hi r)"

fun seqs :: "rx list \<Rightarrow> rx" where
  "seqs [] = Epsilon"
| "seqs (r # rs) = Seq r (seqs rs)"

text \<open>
  \<^verbatim>\<open>/^...$/.test(s)\<close>: without the \<^verbatim>\<open>m\<close> flag \<^verbatim>\<open>^\<close> is the start and \<^verbatim>\<open>$\<close> the very end
  of the input, so the test succeeds iff some way of matching consumes all of \<open>s\<close>.
\<close>

definition test :: "rx \<Rightarrow> jsstring \<Rightarrow> bool" where
  "test r s \<longleftrightarrow> [] \<in> set (matches r s)"

text \<open>\<^verbatim>\<open>/^\d{2}\.\d{3}\.\d{3}\/\d{4}-\d{2}$/\<close>\<close>

definition cnpjRegex :: rx where
  "cnpjRegex = seqs [quant 2 2 Digit, Lit 46, quant 3 3 Digit, Lit 46, quant 3 3 Digit,
                     Lit 47, quant 4 4 Digit, Lit 45, quant 2 2 Digit]"

definition isValidCnpj :: "jsstring \<Rightarrow> bool" where
  "isValidCnpj cnpj = test cnpjRegex cnpj"

text \<open>\<^verbatim>\<open>/^CRM\s?\d{4,6}$/\<close>\<close>

definition crmRegex :: rx where
  "crmRegex = seqs [Lit 67, Lit 82, Lit 77, Opt Space, quant 4 6 Digit]"

definition isValidCrm :: "jsstring \<Rightarrow> bool" where
  "isValidCrm crm = test crmRegex crm"

text \<open>
  The language of a pattern, used to state what \<open>test\<close> accepts; \<open>matches\<close> is the
  executable definition.
\<close>

fun lang :: "rx \<Rightarrow> jsstring set" where
  "lang Epsilon = {[]}"
| "lang (Lit c) = {[c]}"
| "lang Digit = {[c] | c. is_digit c}"
| "lang Space = {[c] | c. is_space c}"
| "lang (Seq a b) = {u @ v | u v. u \<in> lang a \<and> v \<in> lang b}"
| "lang (Opt a) = insert [] (lang a)"

text \<open>
  The shape the specification gives for a CRM: the literal \<^verbatim>\<open>CRM\<close>, optionally one space
  (U+0020), then 4 to 6 digits, and nothing else. A space is not a digit, so taking the
  space whenever one follows \<^verbatim>\<open>CRM\<close> decides the shape.
\<close>

definition crm_shape_spec :: "jsstring \<Rightarrow> bool" where
  "crm_shape_spec s \<longleftrightarrow>
     take 3 s = js ''CRM'' \<and>
     (let r = drop 3 s; ds = (case r of [] \<Rightarrow> [] | c # t \<Rightarrow> if c = 32 then t else r)
      in 4 \<le> length ds \<and> length ds \<le> 6 \<and> list_all is_digit ds)"

section \<open>Effects shared by the two pages\<close>

text \<open>
  Every handler returns the list of effects it performs, in order, and the new component
  state. A toast is identified by its title and description; \<open>destructive\<close> is its
  \<^verbatim>\<open>variant\<close>.
\<close>

datatype error_message =
    VerifiqueOsDados      \<comment> \<open>the default: "Verifique os dados e tente novamente."\<close>
  | EmailJaRegistrado     \<comment> \<open>auth/email-already-in-use\<close>
  | EmailInvalido         \<comment> \<open>auth/invalid-email\<close>
  | SenhaFraca            \<comment> \<open>auth/weak-password\<close>

text \<open>The three information forms of the profile page.\<close>

datatype info_form = Personal | Professional | Financial

datatype toast =
    CnpjInvalido
  | CrmInvalido
  | SenhasNaoCoincidem
  | TipoDeUsuarioNaoSelecionado
  | CadastroRealizado
  | ErroNoCadastro error_message
  | ArquivoMuitoGrande
  | FormatoInvalido
  | DocumentosPessoaisObrigatorios
  | DocumentosProfissionaisObrigatorios
  | DocumentosObrigatorios
  | DocumentosSalvos
  | ErroAoSalvar
  | InformacoesSalvas info_form
  | ErroAoSalvarInformacoes

fun destructive :: "toast \<Rightarrow> bool" where
  "destructive CadastroRealizado = False"
| "destructive DocumentosSalvos = False"
| "destructive (InformacoesSalvas form) = False"
| "destructive _ = True"

datatype role = Doctor | Hospital

record jsfile =
  file_name :: string
  file_size :: nat
  file_type :: string

record register_args =
  arg_email :: jsstring
  arg_password :: jsstring
  arg_name :: jsstring
  arg_role :: role
  arg_extra :: "(string \<times> jsstring) list"

datatype event =
    Toast toast
  | ConsoleError
  | RegisterUser register_args
  | RouterPush string
  | UploadBytes string jsfile
  | GetDownloadURL string
  | AddDoc string "(string \<times> string) list" string
  | AddInfoDoc string info_form string

fun is_external :: "event \<Rightarrow> bool" where
  "is_external (RegisterUser _) = True"
| "is_external (UploadBytes _ _) = True"
| "is_external (GetDownloadURL _) = True"
| "is_external (AddDoc _ _ _) = True"
| "is_external (AddInfoDoc _ _ _) = True"
| "is_external _ = False"

fun is_toast :: "event \<Rightarrow> bool" where
  "is_toast (Toast _) = True"
| "is_toast _ = False"

fun is_AddDoc :: "event \<Rightarrow> bool" where
  "is_AddDoc (AddDoc _ _ _) = True"
| "is_AddDoc (AddInfoDoc _ _ _) = True"
| "is_AddDoc _ = False"

fun is_upload :: "event \<Rightarrow> bool" where
  "is_upload (UploadBytes _ _) = True"
| "is_upload (GetDownloadURL _) = True"
| "is_upload _ = False"

fun is_RegisterUser :: "event \<Rightarrow> bool" where
  "is_RegisterUser (RegisterUser _) = True"
| "is_RegisterUser _ = False"

section \<open>The registration page\<close>

record register_state =
  step :: int
  name :: jsstring
  email :: jsstring
  password :: jsstring
  confirmPassword :: jsstring
  role :: "role option"
  isLoading_register :: bool
  cnpj :: jsstring
  crm :: jsstring

definition initial_register_state :: register_state where
  "initial_register_state =
     \<lparr>step = 0, name = [], email = [], password = [], confirmPassword = [], role = None,
      isLoading_register = False, cnpj = [], crm = []\<rparr>"

definition handleRoleSelection :: "role \<Rightarrow> register_state \<Rightarrow> register_state" where
  "handleRoleSelection v s = s\<lparr>role := Some v, step := 1\<rparr>"

definition handleNextStep_register :: "register_state \<Rightarrow> event list \<times> register_state" where
  "handleNextStep_register s =
     (if role s = Some Hospital \<and> step s = 1 \<and> \<not> isValidCnpj (cnpj s) then
        ([Toast CnpjInvalido], s)
      else if role s = Some Doctor \<and> step s = 1 \<and> \<not> isValidCrm (crm s) then
        ([Toast CrmInvalido], s)
      else ([], s\<lparr>step := step s + 1\<rparr>))"

definition handlePreviousStep_register :: "register_state \<Rightarrow> register_state" where
  "handlePreviousStep_register s = s\<lparr>step := step s - 1\<rparr>"

text \<open>
  \<^verbatim>\<open>registerUser\<close> lives in \<^verbatim>\<open>@/lib/auth-service\<close>, outside the page; the page only
  distinguishes success, a \<^verbatim>\<open>FirebaseError\<close> with its code, and any other exception.
\<close>

datatype register_result = Registered | FirebaseError string | OtherError

text \<open>
  \<^verbatim>\<open>handleSubmit\<close> is an async function. \<open>handleSubmit_begin\<close> is its synchronous part,
  up to and including the call of \<^verbatim>\<open>registerUser\<close>; \<open>handleSubmit_settle\<close> is what runs
  when the awaited promise settles (the rest of \<^verbatim>\<open>try\<close>, \<^verbatim>\<open>catch\<close>, \<^verbatim>\<open>finally\<close>).
\<close>

definition extra_fields :: "role \<Rightarrow> register_state \<Rightarrow> (string \<times> jsstring) list" where
  "extra_fields r s =
     (if r = Hospital then [(''cnpj'', cnpj s)] else []) @
     (if r = Doctor then [(''crm'', crm s)] else [])"

definition handleSubmit_begin :: "register_state \<Rightarrow> (toast + register_args) \<times> register_state" where
  "handleSubmit_begin s =
     (if password s \<noteq> confirmPassword s then (Inl SenhasNaoCoincidem, s)
      else case role s of
        None \<Rightarrow> (Inl TipoDeUsuarioNaoSelecionado, s)
      | Some r \<Rightarrow>
          (Inr \<lparr>arg_email = email s, arg_password = password s, arg_name = name s,
                arg_role = r, arg_extra = extra_fields r s\<rparr>,
           s\<lparr>isLoading_register := True\<rparr>))"

definition error_message_of :: "register_result \<Rightarrow> error_message" where
  "error_message_of r =
     (case r of
        FirebaseError code \<Rightarrow>
          if code = ''auth/email-already-in-use'' then EmailJaRegistrado
          else if code = ''auth/invalid-email'' then EmailInvalido
          else if code = ''auth/weak-password'' then SenhaFraca
          else VerifiqueOsDados
      | _ \<Rightarrow> VerifiqueOsDados)"

definition handleSubmit_settle :: "register_result \<Rightarrow> register_state \<Rightarrow> event list \<times> register_state" where
  "handleSubmit_settle r s =
     (case r of
        Registered \<Rightarrow>
          ([Toast CadastroRealizado, RouterPush ''/dashboard''], s\<lparr>isLoading_register := False\<rparr>)
      | _ \<Rightarrow>
          ([ConsoleError, Toast (ErroNoCadastro (error_message_of r))],
           s\<lparr>isLoading_register := False\<rparr>))"

definition handleSubmit ::
  "(register_args \<Rightarrow> register_result) \<Rightarrow> register_state \<Rightarrow> event list \<times> register_state" where
  "handleSubmit registerUser s =
     (case handleSubmit_begin s of
        (Inl t, s') \<Rightarrow> ([Toast t], s')
      | (Inr a, s') \<Rightarrow>
          (let (evs, s'') = handleSubmit_settle (registerUser a) s'
           in (RegisterUser a # evs, s'')))"

text \<open>The submit button of both credential forms: \<^verbatim>\<open>disabled={isLoading}\<close>.\<close>

definition submit_disabled_register :: "register_state \<Rightarrow> bool" where
  "submit_disabled_register s = isLoading_register s"

text \<open>
  What the rendered page lets happen in a state. \<open>renderSteps\<close> shows the role radio group
  at step 0 only; for a chosen role it shows, at step 1, the name and identifier inputs
  and the button bound to \<^verbatim>\<open>handleNextStep\<close>, and at step 2 the credential inputs, the
  button bound to \<^verbatim>\<open>handlePreviousStep\<close> and the form bound to \<^verbatim>\<open>handleSubmit\<close>; for
  any other step, or with no role, it shows no control. A form whose submit button is
  disabled is not submitted; the \<^verbatim>\<open>required\<close> attributes of the inputs, which only narrow
  when a form is submitted, are left out.
\<close>

datatype register_action =
    SelectRole role
  | EditName jsstring
  | EditCnpj jsstring
  | EditCrm jsstring
  | EditEmail jsstring
  | EditPassword jsstring
  | EditConfirmPassword jsstring
  | Advance
  | Retreat
  | Submit

fun offered :: "register_state \<Rightarrow> register_action \<Rightarrow> bool" where
  "offered s (SelectRole r) \<longleftrightarrow> step s = 0"
| "offered s (EditName v) \<longleftrightarrow> step s = 1 \<and> role s \<noteq> None"
| "offered s (EditCnpj v) \<longleftrightarrow> step s = 1 \<and> role s = Some Hospital"
| "offered s (EditCrm v) \<longleftrightarrow> step s = 1 \<and> role s = Some Doctor"
| "offered s (EditEmail v) \<longleftrightarrow> step s = 2 \<and> role s \<noteq> None"
| "offered s (EditPassword v) \<longleftrightarrow> step s = 2 \<and> role s \<noteq> None"
| "offered s (EditConfirmPassword v) \<longleftrightarrow> step s = 2 \<and> role s \<noteq> None"
| "offered s Advance \<longleftrightarrow> step s = 1 \<and> role s \<noteq> None"
| "offered s Retreat \<longleftrightarrow> step s = 2 \<and> role s \<noteq> None"
| "offered s Submit \<longleftrightarrow> step s = 2 \<and> role s \<noteq> None \<and> \<not> submit_disabled_register s"

fun perform :: "register_action \<Rightarrow> register_state \<Rightarrow> register_state" where
  "perform (SelectRole r) s = handleRoleSelection r s"
| "perform (EditName v) s = s\<lparr>name := v\<rparr>"
| "perform (EditCnpj v) s = s\<lparr>cnpj := v\<rparr>"
| "perform (EditCrm v) s = s\<lparr>crm := v\<rparr>"
| "perform (EditEmail v) s = s\<lparr>email := v\<rparr>"
| "perform (EditPassword v) s = s\<lparr>password := v\<rparr>"
| "perform (EditConfirmPassword v) s = s\<lparr>confirmPassword := v\<rparr>"
| "perform Advance s = snd (handleNextStep_register s)"
| "perform Retreat s = handlePreviousStep_register s"
| "perform Submit s = snd (handleSubmit_begin s)"

text \<open>The \<^verbatim>\<open>registerUser\<close> calls an action starts.\<close>

fun calls :: "register_action \<Rightarrow> register_state \<Rightarrow> register_args list" where
  "calls Submit s = (case fst (handleSubmit_begin s) of Inr a \<Rightarrow> [a] | Inl t \<Rightarrow> [])"
| "calls _ s = []"

text \<open>
  The page as it runs: \<open>reachable s ps\<close> says that the page can be in state \<open>s\<close> with the
  \<^verbatim>\<open>registerUser\<close> calls \<open>ps\<close> started and not yet settled. The user performs an offered
  action, or a pending call settles, with any result, and the rest of \<^verbatim>\<open>handleSubmit\<close>
  runs.
\<close>

inductive reachable :: "register_state \<Rightarrow> register_args list \<Rightarrow> bool" where
  initial: "reachable initial_register_state []"
| action: "reachable s ps \<Longrightarrow> offered s a \<Longrightarrow> reachable (perform a s) (calls a s @ ps)"
| settle: "reachable s ps \<Longrightarrow> p \<in> set ps \<Longrightarrow>
           reachable (snd (handleSubmit_settle r s)) (remove1 p ps)"

text \<open>A sequence of user actions, run from a state, and whether each is offered when its turn comes.\<close>

fun run :: "register_action list \<Rightarrow> register_state \<times> register_args list \<Rightarrow>
    register_state \<times> register_args list" where
  "run [] c = c"
| "run (a # as) (s, ps) = run as (perform a s, calls a s @ ps)"

fun admissible :: "register_action list \<Rightarrow> register_state \<Rightarrow> bool" where
  "admissible [] s = True"
| "admissible (a # as) s = (offered s a \<and> admissible as (perform a s))"

section \<open>The profile page: the document checklist\<close>

text \<open>
  A slot of the \<^verbatim>\<open>documents\<close> object holds \<^verbatim>\<open>null\<close>, a \<^verbatim>\<open>File\<close> picked in this
  session, or whatever \<^verbatim>\<open>JSON.parse\<close> produced when the object was restored from
  \<^verbatim>\<open>localStorage\<close>. The file's bytes play no part in the page's logic and are left out.
  Numbers are kept as integers: the page only asks whether a slot is truthy.
\<close>

datatype json =
    JNull
  | JBool bool
  | JNum int
  | JStr string
  | JArr "json list"
  | JObj "(string \<times> json) list"

datatype docval = FileObj jsfile | Val json

fun truthy :: "docval \<Rightarrow> bool" where
  "truthy (FileObj f) = True"
| "truthy (Val JNull) = False"
| "truthy (Val (JBool b)) = b"
| "truthy (Val (JNum n)) = (n \<noteq> 0)"
| "truthy (Val (JStr t)) = (t \<noteq> [])"
| "truthy (Val (JArr xs)) = True"
| "truthy (Val (JObj kvs)) = True"

text \<open>\<^verbatim>\<open>file instanceof File\<close>\<close>

fun instanceof_File :: "docval \<Rightarrow> bool" where
  "instanceof_File (FileObj f) = True"
| "instanceof_File (Val j) = False"

text \<open>
  An object is the list of its properties in property order (the keys of this page are
  slot names, none of them an array index, so property order is insertion order).
  \<open>obj_set\<close> is an assignment \<^verbatim>\<open>o[k] = v\<close>, and also \<^verbatim>\<open>{...o, [k]: v}\<close>: an existing
  key keeps its place, a new key goes last. \<open>falsy o k\<close> is \<^verbatim>\<open>!o.k\<close>, a missing
  property reading as \<^verbatim>\<open>undefined\<close>.
\<close>

type_synonym 'v jsobject = "(string \<times> 'v) list"

fun obj_set :: "'v jsobject \<Rightarrow> string \<Rightarrow> 'v \<Rightarrow> 'v jsobject" where
  "obj_set [] k v = [(k, v)]"
| "obj_set ((k', v') # rest) k v =
     (if k' = k then (k, v) # rest else (k', v') # obj_set rest k v)"

definition falsy :: "docval jsobject \<Rightarrow> string \<Rightarrow> bool" where
  "falsy obj k = (case map_of obj k of None \<Rightarrow> True | Some v \<Rightarrow> \<not> truthy v)"

text \<open>The object literal with the 14 slots, all \<^verbatim>\<open>null\<close>, in the order the source lists them.\<close>

definition document_keys :: "string list" where
  "document_keys =
     [''rgFile'', ''cpfFile'', ''crmFile'', ''photo'', ''curriculum'', ''criminalRecord'',
      ''ethicalRecord'', ''debtRecord'', ''proofOfResidence'', ''graduationCertificate'',
      ''rqeFile'', ''postGradCertificate'', ''specialistTitle'', ''recommendationLetter'']"

definition empty_documents :: "docval jsobject" where
  "empty_documents = map (\<lambda>k. (k, Val JNull)) document_keys"

text \<open>
  \<^verbatim>\<open>localStorage\<close> holds text. The only writer of the page's key is the persist effect,
  which stores \<^verbatim>\<open>JSON.stringify(documents)\<close>, the text of an object; the model keeps that
  object's properties instead of the text. \<^verbatim>\<open>JSON.stringify\<close> writes a \<^verbatim>\<open>File\<close> as
  \<^verbatim>\<open>{}\<close> (it has no own enumerable property), and \<^verbatim>\<open>JSON.parse\<close> builds plain values
  only.
\<close>

definition storage_key :: string where
  "storage_key = ''hapvida-documents''"

fun toJSON :: "docval \<Rightarrow> json" where
  "toJSON (FileObj f) = JObj []"
| "toJSON (Val j) = j"

definition stringify :: "docval jsobject \<Rightarrow> json jsobject" where
  "stringify obj = map (\<lambda>(k, v). (k, toJSON v)) obj"

definition parse :: "json jsobject \<Rightarrow> docval jsobject" where
  "parse saved = map (\<lambda>(k, j). (k, Val j)) saved"

record profile_state =
  isLoading_profile :: bool
  documents :: "docval jsobject"
  currentStep :: int
  localStorage :: "string \<rightharpoonup> json jsobject"
  documents_changed :: bool

text \<open>
  \<open>documents_changed\<close> records that \<^verbatim>\<open>setDocuments\<close> was called since the last render.
  Every call in the source passes a newly built object, so the state differs from the
  previous one by identity, the component renders again, and the effect with dependency
  \<^verbatim>\<open>[documents]\<close> runs after that render, that is, after the handler's synchronous code.
\<close>

definition setDocuments :: "docval jsobject \<Rightarrow> profile_state \<Rightarrow> profile_state" where
  "setDocuments d s = s\<lparr>documents := d, documents_changed := True\<rparr>"

text \<open>The initializer of the \<^verbatim>\<open>documents\<close> state and the state of a freshly mounted page.\<close>

definition initial_documents :: "(string \<rightharpoonup> json jsobject) \<Rightarrow> docval jsobject" where
  "initial_documents ls =
     (case ls storage_key of Some saved \<Rightarrow> parse saved | None \<Rightarrow> empty_documents)"

definition initial_profile_state :: "(string \<rightharpoonup> json jsobject) \<Rightarrow> profile_state" where
  "initial_profile_state ls =
     \<lparr>isLoading_profile = False, documents = initial_documents ls, currentStep = 0,
      localStorage = ls, documents_changed = True\<rparr>"

text \<open>
  The effect \<^verbatim>\<open>localStorage.setItem("hapvida-documents", JSON.stringify(documents))\<close>, and
  the render that follows a handler: the effect runs iff \<^verbatim>\<open>documents\<close> changed (and after
  the first render, which is why a mounted page starts with \<open>documents_changed\<close> set).
\<close>

definition persist_effect :: "profile_state \<Rightarrow> profile_state" where
  "persist_effect s = s\<lparr>localStorage := (localStorage s)(storage_key \<mapsto> stringify (documents s))\<rparr>"

definition render :: "profile_state \<Rightarrow> profile_state" where
  "render s = (if documents_changed s then (persist_effect s)\<lparr>documents_changed := False\<rparr> else s)"

text \<open>
  The services behind the page: \<^verbatim>\<open>auth.currentUser\<close> (the uid, if any), and for each call
  whether it succeeds or throws.
\<close>

record backend =
  currentUser :: "string option"
  uploadBytes :: "string \<Rightarrow> jsfile \<Rightarrow> bool"
  getDownloadURL :: "string \<Rightarrow> string option"
  addDoc :: "string \<Rightarrow> string jsobject \<Rightarrow> string \<Rightarrow> bool"
  addInfoDoc :: "string \<Rightarrow> info_form \<Rightarrow> string \<Rightarrow> bool"

text \<open>\<^verbatim>\<open>`documents/${user.uid}/${key}`\<close>\<close>

definition storage_path :: "string \<Rightarrow> string \<Rightarrow> string" where
  "storage_path uid key = ''documents/'' @ uid @ ''/'' @ key"

text \<open>
  The loop over \<^verbatim>\<open>Object.entries(documents)\<close>. The result is the calls made and the
  \<^verbatim>\<open>fileUrls\<close> object, or \<open>None\<close> when a call threw.
\<close>

fun upload_all ::
  "backend \<Rightarrow> string \<Rightarrow> docval jsobject \<Rightarrow> string jsobject \<Rightarrow> event list \<times> string jsobject option" where
  "upload_all b uid [] fileUrls = ([], Some fileUrls)"
| "upload_all b uid ((key, file) # rest) fileUrls =
     (if truthy file then
        (case file of
           FileObj f \<Rightarrow>
             (if uploadBytes b (storage_path uid key) f then
                (case getDownloadURL b (storage_path uid key) of
                   Some url \<Rightarrow>
                     (let (evs, r) = upload_all b uid rest (obj_set fileUrls key url)
                      in (UploadBytes (storage_path uid key) f #
                          GetDownloadURL (storage_path uid key) # evs, r))
                 | None \<Rightarrow>
                     ([UploadBytes (storage_path uid key) f,
                       GetDownloadURL (storage_path uid key)], None))
              else ([UploadBytes (storage_path uid key) f], None))
         | Val j \<Rightarrow> upload_all b uid rest fileUrls)
      else upload_all b uid rest fileUrls)"

text \<open>
  \<^verbatim>\<open>handleSaveDocuments\<close> is an async function. It starts with \<^verbatim>\<open>setIsLoading(true)\<close>
  (\<open>handleSaveDocuments_begin\<close>); \<open>handleSaveDocuments_finish\<close> is its \<^verbatim>\<open>try\<close>, \<^verbatim>\<open>catch\<close>
  and \<^verbatim>\<open>finally\<close>, which works on the \<^verbatim>\<open>documents\<close> the handler was called with and
  changes the state the page has when the awaited calls are over. Every failure (no user,
  a throwing upload, a throwing \<^verbatim>\<open>addDoc\<close>) lands in the one \<^verbatim>\<open>catch\<close>.
  \<open>handleSaveDocuments\<close> is the handler run in one piece.
\<close>

definition handleSaveDocuments_begin :: "profile_state \<Rightarrow> profile_state" where
  "handleSaveDocuments_begin s = s\<lparr>isLoading_profile := True\<rparr>"

definition handleSaveDocuments_finish ::
  "backend \<Rightarrow> docval jsobject \<Rightarrow> profile_state \<Rightarrow> event list \<times> profile_state" where
  "handleSaveDocuments_finish b docs s1 =
     (let failed = (\<lambda>evs. (evs @ [ConsoleError, Toast ErroAoSalvar], s1\<lparr>isLoading_profile := False\<rparr>))
      in case currentUser b of
           None \<Rightarrow> failed []
         | Some uid \<Rightarrow>
             (case upload_all b uid docs [] of
                (evs, None) \<Rightarrow> failed evs
              | (evs, Some fileUrls) \<Rightarrow>
                  if addDoc b ''users'' fileUrls uid then
                    (evs @ [AddDoc ''users'' fileUrls uid, Toast DocumentosSalvos],
                     (setDocuments empty_documents (s1\<lparr>currentStep := 0\<rparr>))
                       \<lparr>localStorage := (localStorage s1)(storage_key := None),
                        isLoading_profile := False\<rparr>)
                  else failed (evs @ [AddDoc ''users'' fileUrls uid])))"

definition handleSaveDocuments :: "backend \<Rightarrow> profile_state \<Rightarrow> event list \<times> profile_state" where
  "handleSaveDocuments b s =
     handleSaveDocuments_finish b (documents s) (handleSaveDocuments_begin s)"

text \<open>The button bound to \<^verbatim>\<open>handleSaveDocuments\<close>: \<^verbatim>\<open>disabled={isLoading}\<close>.\<close>

definition submit_disabled_profile :: "profile_state \<Rightarrow> bool" where
  "submit_disabled_profile s = isLoading_profile s"

text \<open>\<^verbatim>\<open>handleFileChange\<close>, given the input's \<^verbatim>\<open>name\<close> and \<^verbatim>\<open>files?.[0]\<close>.\<close>

definition handleFileChange :: "string \<Rightarrow> jsfile option \<Rightarrow> profile_state \<Rightarrow> event list \<times> profile_state" where
  "handleFileChange nm files0 s =
     (case files0 of
        None \<Rightarrow> ([], s)
      | Some f \<Rightarrow>
          if file_size f > 5 * 1024 * 1024 then ([Toast ArquivoMuitoGrande], s)
          else if file_type f \<notin> set [''application/pdf'', ''image/jpeg'', ''image/png''] then
            ([Toast FormatoInvalido], s)
          else ([], setDocuments (obj_set (documents s) nm (FileObj f)) s))"

definition steps :: "(string \<times> bool) list" where
  "steps = [(''Documentos Pessoais'', True), (''Documentos Profissionais'', True),
            (''Documentos de Especialista'', False)]"

definition handleNextStep_profile :: "profile_state \<Rightarrow> event list \<times> profile_state" where
  "handleNextStep_profile s =
     (let d = documents s in
      if currentStep s < int (length steps) - 1 then
        if currentStep s = 0 then
          if falsy d ''rgFile'' \<or> falsy d ''cpfFile'' \<or> falsy d ''photo'' \<or>
             falsy d ''proofOfResidence''
          then ([Toast DocumentosPessoaisObrigatorios], s)
          else ([], s\<lparr>currentStep := currentStep s + 1\<rparr>)
        else if currentStep s = 1 then
          if falsy d ''crmFile'' \<or> falsy d ''curriculum'' \<or> falsy d ''criminalRecord'' \<or>
             falsy d ''ethicalRecord'' \<or> falsy d ''debtRecord'' \<or>
             falsy d ''graduationCertificate''
          then ([Toast DocumentosProfissionaisObrigatorios], s)
          else ([], s\<lparr>currentStep := currentStep s + 1\<rparr>)
        else ([], s\<lparr>currentStep := currentStep s + 1\<rparr>)
      else ([], s))"

definition handlePreviousStep_profile :: "profile_state \<Rightarrow> profile_state" where
  "handlePreviousStep_profile s =
     (if currentStep s > 0 then s\<lparr>currentStep := currentStep s - 1\<rparr> else s)"

text \<open>
  \<^verbatim>\<open>handleFinishEarly\<close>: the slots of \<^verbatim>\<open>requiredDocs\<close>, and the test \<^verbatim>\<open>doc !== null\<close>, which
  a missing property (\<^verbatim>\<open>undefined\<close>) passes.
\<close>

definition requiredDocs :: "string list" where
  "requiredDocs =
     [''rgFile'', ''cpfFile'', ''photo'', ''proofOfResidence'', ''crmFile'', ''curriculum'',
      ''criminalRecord'', ''ethicalRecord'', ''debtRecord'', ''graduationCertificate'']"

definition not_null :: "docval jsobject \<Rightarrow> string \<Rightarrow> bool" where
  "not_null obj k \<longleftrightarrow> map_of obj k \<noteq> Some (Val JNull)"

definition handleFinishEarly :: "backend \<Rightarrow> profile_state \<Rightarrow> event list \<times> profile_state" where
  "handleFinishEarly b s =
     (if list_all (not_null (documents s)) requiredDocs then handleSaveDocuments b s
      else ([Toast DocumentosObrigatorios], s))"

text \<open>
  \<^verbatim>\<open>handleSavePersonalInfo\<close>, \<^verbatim>\<open>handleSaveProfessionalInfo\<close> and
  \<^verbatim>\<open>handleSaveFinancialInfo\<close> have one shape and share \<^verbatim>\<open>isLoading\<close> with the document
  submit. The fields of their forms are not part of the state modelled here; the record
  they write is identified by its form.
\<close>

definition handleSaveInfo_begin :: "profile_state \<Rightarrow> profile_state" where
  "handleSaveInfo_begin s = s\<lparr>isLoading_profile := True\<rparr>"

definition handleSaveInfo_finish ::
  "backend \<Rightarrow> info_form \<Rightarrow> profile_state \<Rightarrow> event list \<times> profile_state" where
  "handleSaveInfo_finish b form s1 =
     (let failed = (\<lambda>evs. (evs @ [ConsoleError, Toast ErroAoSalvarInformacoes],
                            s1\<lparr>isLoading_profile := False\<rparr>))
      in case currentUser b of
           None \<Rightarrow> failed []
         | Some uid \<Rightarrow>
             if addInfoDoc b ''users'' form uid then
               ([AddInfoDoc ''users'' form uid, Toast (InformacoesSalvas form)],
                s1\<lparr>isLoading_profile := False\<rparr>)
             else failed [AddInfoDoc ''users'' form uid])"

text \<open>
  What the rendered profile page lets happen in a state. The file inputs shown are those
  of the current step and are never disabled. The footer shows "Anterior" when
  \<^verbatim>\<open>currentStep > 0\<close>, "Finalizar sem Especialista" when \<^verbatim>\<open>currentStep === 2\<close>, and
  "Proximo" when \<^verbatim>\<open>currentStep < steps.length - 1\<close>, else "Enviar Documentos"; the
  three information forms each have a submit button; every one of these buttons has
  \<^verbatim>\<open>disabled={isLoading}\<close>. Which tab is open, and the first render that waits for the
  signed-in user, only narrow what is offered and are left out.
\<close>

definition step_inputs :: "int \<Rightarrow> string list" where
  "step_inputs n =
     (if n = 0 then [''rgFile'', ''cpfFile'', ''photo'', ''proofOfResidence'']
      else if n = 1 then [''crmFile'', ''curriculum'', ''criminalRecord'', ''ethicalRecord'',
                          ''debtRecord'', ''graduationCertificate'']
      else if n = 2 then [''rqeFile'', ''postGradCertificate'', ''specialistTitle'',
                          ''recommendationLetter'']
      else [])"

datatype profile_action =
    ChooseFile string "jsfile option"
  | NextStep
  | PreviousStep
  | FinishEarly
  | SaveDocuments
  | SaveInfo info_form

fun profile_offered :: "profile_state \<Rightarrow> profile_action \<Rightarrow> bool" where
  "profile_offered s (ChooseFile k f) \<longleftrightarrow> k \<in> set (step_inputs (currentStep s))"
| "profile_offered s NextStep \<longleftrightarrow>
     currentStep s < int (length steps) - 1 \<and> \<not> submit_disabled_profile s"
| "profile_offered s PreviousStep \<longleftrightarrow> currentStep s > 0 \<and> \<not> submit_disabled_profile s"
| "profile_offered s FinishEarly \<longleftrightarrow> currentStep s = 2 \<and> \<not> submit_disabled_profile s"
| "profile_offered s SaveDocuments \<longleftrightarrow>
     \<not> currentStep s < int (length steps) - 1 \<and> \<not> submit_disabled_profile s"
| "profile_offered s (SaveInfo form) \<longleftrightarrow> \<not> submit_disabled_profile s"

text \<open>
  A started and not yet finished async handler: a document submit, with the \<^verbatim>\<open>documents\<close>
  it was called with, or the save of an information form. \<open>profile_perform\<close> is the
  synchronous part of an action, \<open>started\<close> the handler it leaves running, and \<open>finish\<close>
  what that handler does once its awaited calls are over.
\<close>

datatype job = DocumentsJob "docval jsobject" | InfoJob info_form

fun profile_perform :: "profile_action \<Rightarrow> profile_state \<Rightarrow> profile_state" where
  "profile_perform (ChooseFile k f) s = snd (handleFileChange k f s)"
| "profile_perform NextStep s = snd (handleNextStep_profile s)"
| "profile_perform PreviousStep s = handlePreviousStep_profile s"
| "profile_perform FinishEarly s =
     (if list_all (not_null (documents s)) requiredDocs then handleSaveDocuments_begin s else s)"
| "profile_perform SaveDocuments s = handleSaveDocuments_begin s"
| "profile_perform (SaveInfo form) s = handleSaveInfo_begin s"

fun started :: "profile_action \<Rightarrow> profile_state \<Rightarrow> job list" where
  "started FinishEarly s =
     (if list_all (not_null (documents s)) requiredDocs then [DocumentsJob (documents s)] else [])"
| "started SaveDocuments s = [DocumentsJob (documents s)]"
| "started (SaveInfo form) s = [InfoJob form]"
| "started _ s = []"

fun finish :: "backend \<Rightarrow> job \<Rightarrow> profile_state \<Rightarrow> event list \<times> profile_state" where
  "finish b (DocumentsJob docs) s = handleSaveDocuments_finish b docs s"
| "finish b (InfoJob form) s = handleSaveInfo_finish b form s"

text \<open>
  The profile page as it runs: \<open>profile_reachable s jobs\<close> says that the page can be in state
  \<open>s\<close> with the handlers \<open>jobs\<close> started and not yet finished. It mounts on any
  \<^verbatim>\<open>localStorage\<close>; the user performs an offered action; a running handler finishes, on
  any behaviour of the services. The page renders after each of these.
\<close>

inductive profile_reachable :: "profile_state \<Rightarrow> job list \<Rightarrow> bool" where
  mount: "profile_reachable (render (initial_profile_state ls)) []"
| action: "profile_reachable s jobs \<Longrightarrow> profile_offered s a \<Longrightarrow>
           profile_reachable (render (profile_perform a s)) (started a s @ jobs)"
| finished: "profile_reachable s jobs \<Longrightarrow> j \<in> set jobs \<Longrightarrow>
             profile_reachable (render (snd (finish b j s))) (remove1 j jobs)"

fun profile_run :: "profile_action list \<Rightarrow> profile_state \<times> job list \<Rightarrow>
    profile_state \<times> job list" where
  "profile_run [] c = c"
| "profile_run (a # as) (s, jobs) = profile_run as (render (profile_perform a s), started a s @ jobs)"

fun profile_admissible :: "profile_action list \<Rightarrow> profile_state \<Rightarrow> bool" where
  "profile_admissible [] s = True"
| "profile_admissible (a # as) s =
     (profile_offered s a \<and> profile_admissible as (render (profile_perform a s)))"

text \<open>
  For stating what a submit sends: the slots that hold a \<^verbatim>\<open>File\<close>, in property order; the
  two calls made for such a slot; the calls made for a list of such slots when they are
  taken one after the other and the first call that throws ends the sequence; and the
  \<^verbatim>\<open>fileUrls\<close> object that results when every URL is issued.
\<close>

definition file_entries :: "docval jsobject \<Rightarrow> (string \<times> jsfile) list" where
  "file_entries docs =
     concat (map (\<lambda>(k, v). case v of FileObj f \<Rightarrow> [(k, f)] | Val j \<Rightarrow> []) docs)"

definition upload_calls :: "string \<Rightarrow> string \<times> jsfile \<Rightarrow> event list" where
  "upload_calls uid e =
     [UploadBytes (storage_path uid (fst e)) (snd e), GetDownloadURL (storage_path uid (fst e))]"

fun uploads_until_throw :: "backend \<Rightarrow> string \<Rightarrow> (string \<times> jsfile) list \<Rightarrow> event list" where
  "uploads_until_throw b uid [] = []"
| "uploads_until_throw b uid (e # files) =
     (if uploadBytes b (storage_path uid (fst e)) (snd e) then
        (case getDownloadURL b (storage_path uid (fst e)) of
           Some url \<Rightarrow> upload_calls uid e @ uploads_until_throw b uid files
         | None \<Rightarrow> upload_calls uid e)
      else [UploadBytes (storage_path uid (fst e)) (snd e)])"

definition issued_urls :: "backend \<Rightarrow> string \<Rightarrow> (string \<times> jsfile) list \<Rightarrow> string jsobject" where
  "issued_urls b uid files =
     foldl (\<lambda>urls e. case getDownloadURL b (storage_path uid (fst e)) of
                         Some url \<Rightarrow> obj_set urls (fst e) url
                       | None \<Rightarrow> urls) [] files"

section \<open>Example states\<close>

definition hospital_draft :: register_state where
  "hospital_draft =
     \<lparr>step = 1, name = js ''Hospital Sao Lucas'', email = [], password = [],
      confirmPassword = [], role = Some Hospital, isLoading_register = False,
      cnpj = js ''12.345.678/0001-99'', crm = []\<rparr>"

definition doctor_draft :: register_state where
  "doctor_draft =
     \<lparr>step = 2, name = js ''Dr. Joao Silva'', email = js ''medico@clinicasaude.com'',
      password = js ''segredo1'', confirmPassword = js ''segredo1'', role = Some Doctor,
      isLoading_register = False, cnpj = [], crm = js ''CRM 12345''\<rparr>"

text \<open>
  A hospital that types a CNPJ without separators, and then the CNPJ as the pattern wants
  it; the same, followed by the second click on the button of \<^verbatim>\<open>handleNextStep\<close>; a
  doctor who fills the three steps and submits.
\<close>

definition hospital_mistyped :: "register_action list" where
  "hospital_mistyped =
     [SelectRole Hospital, EditName (js ''Hospital Sao Lucas''), EditCnpj (js ''12345678000199'')]"

definition hospital_corrected :: "register_action list" where
  "hospital_corrected = hospital_mistyped @ [Advance, EditCnpj (js ''12.345.678/0001-99'')]"

definition hospital_advanced :: "register_action list" where
  "hospital_advanced = hospital_corrected @ [Advance]"

definition doctor_session :: "register_action list" where
  "doctor_session =
     [SelectRole Doctor, EditName (js ''Dr. Joao Silva''), EditCrm (js ''CRM 12345''), Advance,
      EditEmail (js ''medico@clinicasaude.com''), EditPassword (js ''segredo1''),
      EditConfirmPassword (js ''segredo1''), Submit]"

definition doctor_call :: register_args where
  "doctor_call =
     \<lparr>arg_email = js ''medico@clinicasaude.com'', arg_password = js ''segredo1'',
      arg_name = js ''Dr. Joao Silva'', arg_role = Doctor,
      arg_extra = [(''crm'', js ''CRM 12345'')]\<rparr>"

text \<open>
  A profile with the ten required documents selected in this session, at the last step;
  the same profile with the photo missing, at the first step; the page as it mounts after
  a reload that found the complete set in \<^verbatim>\<open>localStorage\<close>; a backend on which every call
  succeeds, and one on which the upload of the second document throws.
\<close>

definition scan_of :: "string \<Rightarrow> jsfile" where
  "scan_of k = \<lparr>file_name = k @ ''.pdf'', file_size = 2097152, file_type = ''application/pdf''\<rparr>"

definition complete_documents :: "docval jsobject" where
  "complete_documents =
     map (\<lambda>k. (k, if k \<in> set requiredDocs then FileObj (scan_of k) else Val JNull)) document_keys"

definition complete_profile :: profile_state where
  "complete_profile =
     \<lparr>isLoading_profile = False, documents = complete_documents, currentStep = 2,
      localStorage = [storage_key \<mapsto> stringify complete_documents], documents_changed = False\<rparr>"

definition ok_backend :: backend where
  "ok_backend =
     \<lparr>currentUser = Some ''u1'', uploadBytes = (\<lambda>p f. True),
      getDownloadURL = (\<lambda>p. Some (''https://files/'' @ p)), addDoc = (\<lambda>c d u. True),
      addInfoDoc = (\<lambda>c f u. True)\<rparr>"

definition failing_backend :: backend where
  "failing_backend = ok_backend\<lparr>uploadBytes := (\<lambda>p f. p \<noteq> ''documents/u1/cpfFile'')\<rparr>"

definition missing_photo :: profile_state where
  "missing_photo =
     complete_profile\<lparr>documents := obj_set complete_documents ''photo'' (Val JNull), currentStep := 0\<rparr>"

definition reloaded_profile :: profile_state where
  "reloaded_profile = initial_profile_state [storage_key \<mapsto> stringify complete_documents]"

text \<open>
  The reloaded page after the first document has been selected again; and a user who, on
  a page mounted with nothing stored, selects the ten required documents step by step and
  submits.
\<close>

definition mixed_profile :: profile_state where
  "mixed_profile =
     reloaded_profile\<lparr>documents :=
       obj_set (documents reloaded_profile) ''rgFile'' (FileObj (scan_of ''rgFile''))\<rparr>"

definition documents_session :: "profile_action list" where
  "documents_session =
     map (\<lambda>k. ChooseFile k (Some (scan_of k))) (step_inputs 0) @ [NextStep] @
     map (\<lambda>k. ChooseFile k (Some (scan_of k))) (step_inputs 1) @ [NextStep, SaveDocuments]"


section \<open>What the patterns accept\<close>

lemma matches_lang: "set (matches r s) = {t. \<exists>p \<in> lang r. s = p @ t}"
proof (induction r arbitrary: s)
  case (Seq a b)
  then show ?case by (auto, blast, force)
qed (auto split: list.splits)

lemma test_lang: "test r s \<longleftrightarrow> s \<in> lang r"
  by (simp add: test_def matches_lang)

lemma in_lang_Seq_Lit: "s \<in> lang (Seq (Lit c) r) \<longleftrightarrow> (\<exists>t. s = c # t \<and> t \<in> lang r)"
  by auto

lemma in_lang_Seq_Digit:
  "s \<in> lang (Seq Digit r) \<longleftrightarrow> (\<exists>c t. s = c # t \<and> is_digit c \<and> t \<in> lang r)"
proof
  assume "s \<in> lang (Seq Digit r)"
  then show "\<exists>c t. s = c # t \<and> is_digit c \<and> t \<in> lang r" by auto
next
  assume "\<exists>c t. s = c # t \<and> is_digit c \<and> t \<in> lang r"
  then obtain c t where "s = [c] @ t" "is_digit c" "t \<in> lang r" by auto
  then show "s \<in> lang (Seq Digit r)" by (simp del: append.simps) blast
qed

lemma in_lang_Seq_Opt_Space:
  "s \<in> lang (Seq (Opt Space) r) \<longleftrightarrow>
     s \<in> lang r \<or> (\<exists>c t. s = c # t \<and> is_space c \<and> t \<in> lang r)"
proof
  assume "s \<in> lang (Seq (Opt Space) r)"
  then show "s \<in> lang r \<or> (\<exists>c t. s = c # t \<and> is_space c \<and> t \<in> lang r)" by auto
next
  assume "s \<in> lang r \<or> (\<exists>c t. s = c # t \<and> is_space c \<and> t \<in> lang r)"
  then show "s \<in> lang (Seq (Opt Space) r)"
  proof
    assume "s \<in> lang r"
    then have "s = [] @ s \<and> [] \<in> lang (Opt Space) \<and> s \<in> lang r" by simp
    then show ?thesis unfolding lang.simps(5) by blast
  next
    assume "\<exists>c t. s = c # t \<and> is_space c \<and> t \<in> lang r"
    then obtain c t where "s = [c] @ t" "is_space c" "t \<in> lang r" by auto
    then have "s = [c] @ t \<and> [c] \<in> lang (Opt Space) \<and> t \<in> lang r" by simp
    then show ?thesis unfolding lang.simps(5) by blast
  qed
qed

lemma in_lang_Seq_Epsilon: "s \<in> lang (Seq r Epsilon) \<longleftrightarrow> s \<in> lang r"
  by auto

lemma in_lang_quant_Digit:
  "lo \<le> hi \<Longrightarrow>
   ds \<in> lang (quant lo hi Digit) \<longleftrightarrow> lo \<le> length ds \<and> length ds \<le> hi \<and> list_all is_digit ds"
proof (induction lo hi Digit arbitrary: ds rule: quant.induct)
  case (1 lo)
  then show ?case by auto
next
  case (2 hi)
  have "quant 0 (Suc hi) Digit = Opt (Seq Digit (quant 0 hi Digit))" by simp
  then have "ds \<in> lang (quant 0 (Suc hi) Digit) \<longleftrightarrow>
             ds = [] \<or> (\<exists>c t. ds = c # t \<and> is_digit c \<and> t \<in> lang (quant 0 hi Digit))"
    by (simp only: lang.simps(6) insert_iff in_lang_Seq_Digit)
  also have "\<dots> \<longleftrightarrow>
             ds = [] \<or> (\<exists>c t. ds = c # t \<and> is_digit c \<and> length t \<le> hi \<and> list_all is_digit t)"
    using 2 by simp
  also have "\<dots> \<longleftrightarrow> 0 \<le> length ds \<and> length ds \<le> Suc hi \<and> list_all is_digit ds"
    by (cases ds) auto
  finally show ?case .
next
  case (3 lo hi)
  have "ds \<in> lang (quant (Suc lo) (Suc hi) Digit) \<longleftrightarrow>
        (\<exists>c t. ds = c # t \<and> is_digit c \<and> t \<in> lang (quant lo hi Digit))"
    by (simp only: quant.simps in_lang_Seq_Digit)
  also have "\<dots> \<longleftrightarrow>
        (\<exists>c t. ds = c # t \<and> is_digit c \<and> lo \<le> length t \<and> length t \<le> hi \<and> list_all is_digit t)"
    using 3 by simp
  also have "\<dots> \<longleftrightarrow> Suc lo \<le> length ds \<and> length ds \<le> Suc hi \<and> list_all is_digit ds"
    by (cases ds) auto
  finally show ?case .
qed

lemma isValidCrm_iff:
  "isValidCrm s \<longleftrightarrow>
     (\<exists>sp ds. s = js ''CRM'' @ sp @ ds \<and> (sp = [] \<or> (\<exists>c. sp = [c] \<and> is_space c)) \<and>
        4 \<le> length ds \<and> length ds \<le> 6 \<and> list_all is_digit ds)"
proof -
  let ?D = "lang (quant 4 6 Digit)"
  have CRM: "js ''CRM'' = [67, 82, 77]" by (simp add: js_def)
  have "isValidCrm s \<longleftrightarrow>
        s \<in> lang (Seq (Lit 67) (Seq (Lit 82) (Seq (Lit 77) (Seq (Opt Space) (quant 4 6 Digit)))))"
    by (simp only: isValidCrm_def test_lang crmRegex_def seqs.simps in_lang_Seq_Lit
        in_lang_Seq_Opt_Space in_lang_Seq_Epsilon)
  also have "\<dots> \<longleftrightarrow>
        (\<exists>t. s = 67 # 82 # 77 # t \<and> (t \<in> ?D \<or> (\<exists>c ds. t = c # ds \<and> is_space c \<and> ds \<in> ?D)))"
    by (simp only: in_lang_Seq_Lit in_lang_Seq_Opt_Space) blast
  also have "\<dots> \<longleftrightarrow>
        (\<exists>sp ds. s = js ''CRM'' @ sp @ ds \<and> (sp = [] \<or> (\<exists>c. sp = [c] \<and> is_space c)) \<and> ds \<in> ?D)"
    unfolding CRM
  proof
    assume "\<exists>t. s = 67 # 82 # 77 # t \<and> (t \<in> ?D \<or> (\<exists>c ds. t = c # ds \<and> is_space c \<and> ds \<in> ?D))"
    then obtain t where s: "s = 67 # 82 # 77 # t"
      and t: "t \<in> ?D \<or> (\<exists>c ds. t = c # ds \<and> is_space c \<and> ds \<in> ?D)"
      by blast
    from t show "\<exists>sp ds. s = [67, 82, 77] @ sp @ ds \<and>
        (sp = [] \<or> (\<exists>c. sp = [c] \<and> is_space c)) \<and> ds \<in> ?D"
    proof
      assume "t \<in> ?D"
      with s have "s = [67, 82, 77] @ [] @ t \<and>
          ([] = [] \<or> (\<exists>c. [] = [c] \<and> is_space c)) \<and> t \<in> ?D"
        by simp
      then show ?thesis by blast
    next
      assume "\<exists>c ds. t = c # ds \<and> is_space c \<and> ds \<in> ?D"
      then obtain c ds where "t = c # ds" "is_space c" "ds \<in> ?D" by blast
      with s have "s = [67, 82, 77] @ [c] @ ds \<and>
          ([c] = [] \<or> (\<exists>c'. [c] = [c'] \<and> is_space c')) \<and> ds \<in> ?D"
        by simp
      then show ?thesis by blast
    qed
  next
    assume "\<exists>sp ds. s = [67, 82, 77] @ sp @ ds \<and>
        (sp = [] \<or> (\<exists>c. sp = [c] \<and> is_space c)) \<and> ds \<in> ?D"
    then show "\<exists>t. s = 67 # 82 # 77 # t \<and>
        (t \<in> ?D \<or> (\<exists>c ds. t = c # ds \<and> is_space c \<and> ds \<in> ?D))"
      by auto
  qed
  also have "\<dots> \<longleftrightarrow>
        (\<exists>sp ds. s = js ''CRM'' @ sp @ ds \<and> (sp = [] \<or> (\<exists>c. sp = [c] \<and> is_space c)) \<and>
           4 \<le> length ds \<and> length ds \<le> 6 \<and> list_all is_digit ds)"
    by (simp only: in_lang_quant_Digit [of 4 6, simplified])
  finally show ?thesis .
qed

section \<open>The registration page\<close>

text \<open>
  C8, as the specification states it: \<open>isValidCrm\<close> accepts exactly \<^verbatim>\<open>CRM\<close>, an optional
  single space, and 4 to 6 digits. The pattern's \<^verbatim>\<open>\s\<close> accepts any white-space
  character, so a CRM written with a TAB between \<^verbatim>\<open>CRM\<close> and the digits is accepted
  although it does not have the stated shape.
\<close>

theorem isValidCrm_tab_counterexample:
  "isValidCrm (js ''CRM'' @ [9] @ js ''1234'') \<and>
   \<not> crm_shape_spec (js ''CRM'' @ [9] @ js ''1234'')"
  by code_simp

text \<open>
  C8, amended: \<open>isValidCrm s\<close> is true iff \<open>s\<close> is exactly the literal \<^verbatim>\<open>CRM\<close>, optionally
  followed by one white-space character (any character of the class \<^verbatim>\<open>\s\<close>, of which
  the space is one), followed by 4 to 6 digits. \<^verbatim>\<open>CRM12345\<close> and \<^verbatim>\<open>CRM 12345\<close> are accepted
  and \<^verbatim>\<open>CRM123\<close> is rejected.
\<close>

theorem isValidCrm_shape:
  "(isValidCrm s \<longleftrightarrow>
      (\<exists>sp ds. s = js ''CRM'' @ sp @ ds \<and> (sp = [] \<or> (\<exists>c. sp = [c] \<and> is_space c)) \<and>
         4 \<le> length ds \<and> length ds \<le> 6 \<and> list_all is_digit ds)) \<and>
   isValidCrm (js ''CRM12345'') \<and> isValidCrm (js ''CRM 12345'') \<and> \<not> isValidCrm (js ''CRM123'')"
proof -
  have "isValidCrm (js ''CRM12345'')" by code_simp
  moreover have "isValidCrm (js ''CRM 12345'')" by code_simp
  moreover have "\<not> isValidCrm (js ''CRM123'')" by code_simp
  ultimately show ?thesis using isValidCrm_iff [of s] by blast
qed

text \<open>
  C6: \<open>handleNextStep\<close> of the registration page at step 1. For a hospital an identifier
  that fails \<open>isValidCnpj\<close> leaves the state as it is and shows the toast "CNPJ
  invalido"; one that passes moves the step to 2. For a doctor the same holds with
  \<open>isValidCrm\<close> and the toast "CRM invalido".
\<close>

theorem handleNextStep_register_step1:
  "step s = 1 \<Longrightarrow>
   (role s = Some Hospital \<longrightarrow>
      handleNextStep_register s =
        (if isValidCnpj (cnpj s) then ([], s\<lparr>step := 2\<rparr>) else ([Toast CnpjInvalido], s))) \<and>
   (role s = Some Doctor \<longrightarrow>
      handleNextStep_register s =
        (if isValidCrm (crm s) then ([], s\<lparr>step := 2\<rparr>) else ([Toast CrmInvalido], s)))"
  by (simp add: handleNextStep_register_def)

theorem handleNextStep_register_step1_witness:
  "step hospital_draft = 1 \<and> role hospital_draft = Some Hospital \<and>
   isValidCnpj (cnpj hospital_draft) \<and>
   handleNextStep_register hospital_draft = ([], hospital_draft\<lparr>step := 2\<rparr>) \<and>
   \<not> isValidCnpj (cnpj (hospital_draft\<lparr>cnpj := js ''12345678000199''\<rparr>)) \<and>
   handleNextStep_register (hospital_draft\<lparr>cnpj := js ''12345678000199''\<rparr>) =
     ([Toast CnpjInvalido], hospital_draft\<lparr>cnpj := js ''12345678000199''\<rparr>)"
proof -
  have v: "isValidCnpj (js ''12.345.678/0001-99'')" by code_simp
  have w: "\<not> isValidCnpj (js ''12345678000199'')" by code_simp
  show ?thesis
    using handleNextStep_register_step1 [of hospital_draft]
      handleNextStep_register_step1 [of "hospital_draft\<lparr>cnpj := js ''12345678000199''\<rparr>"] v w
    by (simp add: hospital_draft_def)
qed

text \<open>
  C5: \<open>handleSubmit\<close> with differing passwords, or with no role, shows one destructive
  toast, calls nothing outside the page (in particular not \<^verbatim>\<open>registerUser\<close>) and returns
  the state it was given; with equal passwords and a role it calls \<^verbatim>\<open>registerUser\<close>
  exactly once, with the draft's fields.
\<close>

theorem handleSubmit_preconditions:
  "(password s \<noteq> confirmPassword s \<longrightarrow>
      handleSubmit registerUser s = ([Toast SenhasNaoCoincidem], s)) \<and>
   (password s = confirmPassword s \<and> role s = None \<longrightarrow>
      handleSubmit registerUser s = ([Toast TipoDeUsuarioNaoSelecionado], s)) \<and>
   (password s \<noteq> confirmPassword s \<or> role s = None \<longrightarrow>
      filter is_external (fst (handleSubmit registerUser s)) = [] \<and>
      (\<exists>t. filter is_toast (fst (handleSubmit registerUser s)) = [Toast t] \<and> destructive t)) \<and>
   (password s = confirmPassword s \<and> role s \<noteq> None \<longrightarrow>
      (\<exists>a. filter is_external (fst (handleSubmit registerUser s)) = [RegisterUser a] \<and>
           arg_email a = email s \<and> arg_password a = password s \<and> arg_name a = name s \<and>
           Some (arg_role a) = role s))"
  by (cases "registerUser \<lparr>arg_email = email s, arg_password = password s, arg_name = name s,
                arg_role = the (role s), arg_extra = extra_fields (the (role s)) s\<rparr>")
     (auto simp: handleSubmit_def handleSubmit_begin_def handleSubmit_settle_def split: option.splits)

theorem handleSubmit_preconditions_witness:
  "password (doctor_draft\<lparr>confirmPassword := js ''segredo2''\<rparr>) \<noteq>
     confirmPassword (doctor_draft\<lparr>confirmPassword := js ''segredo2''\<rparr>) \<and>
   handleSubmit (\<lambda>a. Registered) (doctor_draft\<lparr>confirmPassword := js ''segredo2''\<rparr>) =
     ([Toast SenhasNaoCoincidem], doctor_draft\<lparr>confirmPassword := js ''segredo2''\<rparr>) \<and>
   password (doctor_draft\<lparr>role := None\<rparr>) = confirmPassword (doctor_draft\<lparr>role := None\<rparr>) \<and>
   handleSubmit (\<lambda>a. Registered) (doctor_draft\<lparr>role := None\<rparr>) =
     ([Toast TipoDeUsuarioNaoSelecionado], doctor_draft\<lparr>role := None\<rparr>) \<and>
   password doctor_draft = confirmPassword doctor_draft \<and> role doctor_draft \<noteq> None \<and>
   (\<exists>a. filter is_external (fst (handleSubmit (\<lambda>a. Registered) doctor_draft)) = [RegisterUser a])"
  using handleSubmit_preconditions [of "doctor_draft\<lparr>confirmPassword := js ''segredo2''\<rparr>" "\<lambda>a. Registered"]
    handleSubmit_preconditions [of "doctor_draft\<lparr>role := None\<rparr>" "\<lambda>a. Registered"]
    handleSubmit_preconditions [of doctor_draft "\<lambda>a. Registered"]
  by (auto simp: doctor_draft_def js_def)

lemma step_perform:
  "offered s a \<Longrightarrow> step s \<in> {0, 1, 2} \<Longrightarrow> step (perform a s) \<in> {0, 1, 2}"
  by (cases a)
     (auto simp: handleRoleSelection_def handleNextStep_register_def handlePreviousStep_register_def
        handleSubmit_begin_def split: option.splits)

lemma step_settle: "step (snd (handleSubmit_settle r s)) = step s"
  by (cases r) (simp_all add: handleSubmit_settle_def)

lemma reachable_step_range: "reachable s ps \<Longrightarrow> step s \<in> {0, 1, 2}"
proof (induction rule: reachable.induct)
  case initial
  show ?case by (simp add: initial_register_state_def)
next
  case (action s ps a)
  then show ?case using step_perform [of s a] by blast
next
  case (settle s ps p r)
  then show ?case by (simp only: step_settle)
qed

lemma reachable_run:
  "reachable s ps \<Longrightarrow> admissible as s \<Longrightarrow>
   reachable (fst (run as (s, ps))) (snd (run as (s, ps)))"
proof (induction as arbitrary: s ps)
  case Nil
  then show ?case by simp
next
  case (Cons a as)
  from Cons.prems have "reachable (perform a s) (calls a s @ ps)" "admissible as (perform a s)"
    by (auto intro: reachable.action)
  from Cons.IH [OF this] show ?case by simp
qed

lemma run_hospital_mistyped:
  "admissible hospital_mistyped initial_register_state \<and>
   run hospital_mistyped (initial_register_state, []) =
     (hospital_draft\<lparr>cnpj := js ''12345678000199''\<rparr>, [])"
  by (simp add: hospital_mistyped_def initial_register_state_def hospital_draft_def
      handleRoleSelection_def)

lemma run_hospital_corrected:
  "admissible hospital_corrected initial_register_state \<and>
   run hospital_corrected (initial_register_state, []) = (hospital_draft, [])"
proof -
  have w: "\<not> isValidCnpj (js ''12345678000199'')" by code_simp
  show ?thesis
    by (simp add: hospital_corrected_def hospital_mistyped_def initial_register_state_def
        hospital_draft_def handleRoleSelection_def handleNextStep_register_def w)
qed

lemma run_hospital_advanced:
  "admissible hospital_advanced initial_register_state \<and>
   run hospital_advanced (initial_register_state, []) = (hospital_draft\<lparr>step := 2\<rparr>, [])"
proof -
  have w: "\<not> isValidCnpj (js ''12345678000199'')" by code_simp
  have v: "isValidCnpj (js ''12.345.678/0001-99'')" by code_simp
  show ?thesis
    by (simp add: hospital_advanced_def hospital_corrected_def hospital_mistyped_def
        initial_register_state_def hospital_draft_def handleRoleSelection_def
        handleNextStep_register_def w v)
qed

lemma run_doctor_session:
  "admissible doctor_session initial_register_state \<and>
   run doctor_session (initial_register_state, []) =
     (doctor_draft\<lparr>isLoading_register := True\<rparr>, [doctor_call])"
proof -
  have v: "isValidCrm (js ''CRM 12345'')" by code_simp
  show ?thesis
    by (simp add: doctor_session_def initial_register_state_def doctor_draft_def doctor_call_def
        handleRoleSelection_def handleNextStep_register_def handleSubmit_begin_def
        submit_disabled_register_def extra_fields_def v)
qed

text \<open>
  C9: in every state the registration page can reach from its initial state through the
  controls it renders and the settling of its \<^verbatim>\<open>registerUser\<close> calls, \<open>step\<close> is 0, 1 or 2,
  and no offered operation leaves that range. Choosing a role is offered at step 0 only
  and moves to step 1. \<open>handleNextStep\<close> is offered at step 1 only, with a role chosen,
  and moves to step 2 exactly when the role's identifier passes its validator
  (\<open>isValidCnpj\<close> for a hospital, \<open>isValidCrm\<close> for a doctor), staying at 1 otherwise.
  \<open>handlePreviousStep\<close> is offered only at a step \<open>\<ge> 1\<close> and subtracts 1. Submitting and
  the settling of a call keep the step.
\<close>

theorem register_step_invariant:
  "reachable s ps \<Longrightarrow>
   step s \<in> {0, 1, 2} \<and>
   (\<forall>a. offered s a \<longrightarrow> step (perform a s) \<in> {0, 1, 2}) \<and>
   (\<forall>r. step (snd (handleSubmit_settle r s)) = step s) \<and>
   (\<forall>r. offered s (SelectRole r) \<longrightarrow> step s = 0 \<and> step (perform (SelectRole r) s) = 1) \<and>
   (offered s Advance \<longrightarrow>
      step s = 1 \<and> (role s = Some Hospital \<or> role s = Some Doctor) \<and>
      (role s = Some Hospital \<longrightarrow>
         step (perform Advance s) = (if isValidCnpj (cnpj s) then 2 else 1)) \<and>
      (role s = Some Doctor \<longrightarrow>
         step (perform Advance s) = (if isValidCrm (crm s) then 2 else 1))) \<and>
   (offered s Retreat \<longrightarrow> 1 \<le> step s \<and> step (perform Retreat s) = step s - 1) \<and>
   (offered s Submit \<longrightarrow> step (perform Submit s) = step s)"
proof -
  assume r: "reachable s ps"
  have 1: "step s \<in> {0, 1, 2}" using r by (rule reachable_step_range)
  have 2: "\<forall>a. offered s a \<longrightarrow> step (perform a s) \<in> {0, 1, 2}"
    using 1 step_perform [of s] by blast
  have 3: "\<forall>r. step (snd (handleSubmit_settle r s)) = step s"
    by (simp only: step_settle) simp
  have 4: "\<forall>r. offered s (SelectRole r) \<longrightarrow> step s = 0 \<and> step (perform (SelectRole r) s) = 1"
    by (simp add: handleRoleSelection_def)
  have 5: "offered s Advance \<longrightarrow>
      step s = 1 \<and> (role s = Some Hospital \<or> role s = Some Doctor) \<and>
      (role s = Some Hospital \<longrightarrow>
         step (perform Advance s) = (if isValidCnpj (cnpj s) then 2 else 1)) \<and>
      (role s = Some Doctor \<longrightarrow>
         step (perform Advance s) = (if isValidCrm (crm s) then 2 else 1))"
  proof
    assume o: "offered s Advance"
    then obtain x where x: "role s = Some x" by auto
    from o x show "step s = 1 \<and> (role s = Some Hospital \<or> role s = Some Doctor) \<and>
      (role s = Some Hospital \<longrightarrow>
         step (perform Advance s) = (if isValidCnpj (cnpj s) then 2 else 1)) \<and>
      (role s = Some Doctor \<longrightarrow>
         step (perform Advance s) = (if isValidCrm (crm s) then 2 else 1))"
      by (cases x) (simp_all add: handleNextStep_register_def)
  qed
  have 6: "offered s Retreat \<longrightarrow> 1 \<le> step s \<and> step (perform Retreat s) = step s - 1"
    by (simp add: handlePreviousStep_register_def)
  have 7: "offered s Submit \<longrightarrow> step (perform Submit s) = step s"
    by (simp add: handleSubmit_begin_def split: option.splits)
  from 1 2 3 4 5 6 7 show ?thesis by blast
qed

theorem register_step_invariant_witness:
  "reachable (hospital_draft\<lparr>cnpj := js ''12345678000199''\<rparr>) [] \<and>
   \<not> isValidCnpj (js ''12345678000199'') \<and>
   step (perform Advance (hospital_draft\<lparr>cnpj := js ''12345678000199''\<rparr>)) = 1 \<and>
   reachable hospital_draft [] \<and>
   isValidCnpj (cnpj hospital_draft) \<and>
   step hospital_draft = 1 \<and> step (perform Advance hospital_draft) = 2 \<and>
   reachable (hospital_draft\<lparr>step := 2\<rparr>) [] \<and>
   offered (hospital_draft\<lparr>step := 2\<rparr>) Retreat \<and>
   step (perform Retreat (hospital_draft\<lparr>step := 2\<rparr>)) = 1"
proof -
  have w: "\<not> isValidCnpj (js ''12345678000199'')" by code_simp
  have v: "isValidCnpj (js ''12.345.678/0001-99'')" by code_simp
  have r1: "reachable (hospital_draft\<lparr>cnpj := js ''12345678000199''\<rparr>) []"
    using reachable_run [OF reachable.initial, of hospital_mistyped] run_hospital_mistyped
    by simp
  have r2: "reachable hospital_draft []"
    using reachable_run [OF reachable.initial, of hospital_corrected] run_hospital_corrected
    by simp
  have r3: "reachable (hospital_draft\<lparr>step := 2\<rparr>) []"
    using reachable_run [OF reachable.initial, of hospital_advanced] run_hospital_advanced
    by simp
  show ?thesis
    using register_step_invariant [OF r1] register_step_invariant [OF r2]
      register_step_invariant [OF r3] r1 r2 r3 w v
    by (simp add: hospital_draft_def)
qed

section \<open>The in-flight flag of the two submit actions\<close>

lemma reachable_in_flight:
  "reachable s ps \<Longrightarrow> length ps \<le> 1 \<and> (isLoading_register s \<longleftrightarrow> ps \<noteq> [])"
proof (induction rule: reachable.induct)
  case initial
  show ?case by (simp add: initial_register_state_def)
next
  case (action s ps a)
  then show ?case
    by (cases a)
       (auto simp: handleRoleSelection_def handleNextStep_register_def
          handlePreviousStep_register_def handleSubmit_begin_def submit_disabled_register_def
          split: option.splits)
next
  case (settle s ps p r)
  then have "ps = [p]" by (cases ps) auto
  then show ?case by (cases r) (simp_all add: handleSubmit_settle_def)
qed

lemma isLoading_render: "isLoading_profile (render s) = isLoading_profile s"
  by (simp add: render_def persist_effect_def)

lemma isLoading_finish: "\<not> isLoading_profile (snd (finish b j s))"
  by (cases j)
     (auto simp: handleSaveDocuments_finish_def handleSaveInfo_finish_def setDocuments_def Let_def
        split: option.splits prod.splits)

lemma isLoading_perform:
  "profile_offered s a \<Longrightarrow> \<not> isLoading_profile s \<Longrightarrow>
   isLoading_profile (profile_perform a s) \<longleftrightarrow> started a s \<noteq> []"
  by (cases a)
     (auto simp: handleFileChange_def setDocuments_def handleNextStep_profile_def Let_def
        handlePreviousStep_profile_def handleSaveDocuments_begin_def handleSaveInfo_begin_def
        split: option.splits)

lemma started_at_most_one: "length (started a s) \<le> 1"
  by (cases a) auto

lemma offered_while_loading:
  "profile_offered s a \<Longrightarrow> isLoading_profile s \<Longrightarrow>
   started a s = [] \<and> isLoading_profile (profile_perform a s)"
  by (cases a)
     (auto simp: submit_disabled_profile_def handleFileChange_def setDocuments_def
        split: option.splits)

lemma profile_reachable_in_flight:
  "profile_reachable s jobs \<Longrightarrow>
   length jobs \<le> 1 \<and> (isLoading_profile s \<longleftrightarrow> jobs \<noteq> [])"
proof (induction rule: profile_reachable.induct)
  case (mount ls)
  show ?case by (simp add: isLoading_render initial_profile_state_def)
next
  case (action s jobs a)
  show ?case
  proof (cases "isLoading_profile s")
    case True
    with action offered_while_loading [of s a] show ?thesis by (simp add: isLoading_render)
  next
    case False
    with action have "jobs = []" by simp
    with False action.hyps(2) isLoading_perform [of s a] started_at_most_one [of a s]
    show ?thesis by (simp add: isLoading_render)
  qed
next
  case (finished s jobs j b)
  then have "jobs = [j]" by (cases jobs) auto
  then show ?case by (simp add: isLoading_render isLoading_finish)
qed

lemma profile_reachable_run:
  "profile_reachable s jobs \<Longrightarrow> profile_admissible as s \<Longrightarrow>
   profile_reachable (fst (profile_run as (s, jobs))) (snd (profile_run as (s, jobs)))"
proof (induction as arbitrary: s jobs)
  case Nil
  then show ?case by simp
next
  case (Cons a as)
  from Cons.prems have
    "profile_reachable (render (profile_perform a s)) (started a s @ jobs)"
    "profile_admissible as (render (profile_perform a s))"
    by (auto intro: profile_reachable.action)
  from Cons.IH [OF this] show ?case by simp
qed

lemma run_documents_session:
  "profile_admissible documents_session (render (initial_profile_state Map.empty)) \<and>
   snd (profile_run documents_session (render (initial_profile_state Map.empty), [])) =
     [DocumentsJob complete_documents] \<and>
   currentStep (fst (profile_run documents_session (render (initial_profile_state Map.empty), []))) = 2"
  by (simp add: documents_session_def step_inputs_def scan_of_def initial_profile_state_def
      initial_documents_def empty_documents_def document_keys_def render_def persist_effect_def
      handleFileChange_def setDocuments_def handleNextStep_profile_def falsy_def steps_def
      submit_disabled_profile_def handleSaveDocuments_begin_def complete_documents_def
      requiredDocs_def Let_def)

text \<open>
  C2: on both pages at most one submit is in flight at any time, and the in-flight flag
  is set exactly while one is. While a \<^verbatim>\<open>registerUser\<close> call is pending the registration
  page does not offer \<open>handleSubmit\<close>, and nothing it offers starts another call; the flag
  is cleared when the call settles. While a handler of the profile page is running
  (\<open>handleSaveDocuments\<close>, also when started by \<open>handleFinishEarly\<close>, or the save of an
  information form), the page offers none of these actions, and nothing it offers starts
  another handler; the flag is cleared when the handler finishes. The external calls of
  the pages are those of these handlers: \<open>calls\<close> lists the \<^verbatim>\<open>registerUser\<close> calls that
  \<open>handleSubmit\<close> makes, and the handlers of the other offered actions make none.
\<close>

theorem submit_not_reentrant:
  "(reachable s ps \<longrightarrow>
      length ps \<le> 1 \<and> (isLoading_register s \<longleftrightarrow> ps \<noteq> []) \<and>
      (ps \<noteq> [] \<longrightarrow> \<not> offered s Submit \<and> (\<forall>a. offered s a \<longrightarrow> calls a s = [])) \<and>
      (\<forall>r. \<not> isLoading_register (snd (handleSubmit_settle r s)))) \<and>
   (profile_reachable q jobs \<longrightarrow>
      length jobs \<le> 1 \<and> (isLoading_profile q \<longleftrightarrow> jobs \<noteq> []) \<and>
      (jobs \<noteq> [] \<longrightarrow>
         \<not> profile_offered q SaveDocuments \<and> \<not> profile_offered q FinishEarly \<and>
         (\<forall>form. \<not> profile_offered q (SaveInfo form)) \<and>
         (\<forall>a. profile_offered q a \<longrightarrow> started a q = [])) \<and>
      (\<forall>b j. \<not> isLoading_profile (snd (finish b j q)))) \<and>
   filter is_external (fst (handleSubmit registerUser s)) = map RegisterUser (calls Submit s) \<and>
   filter is_external (fst (handleNextStep_register s)) = [] \<and>
   filter is_external (fst (handleFileChange k f q)) = [] \<and>
   filter is_external (fst (handleNextStep_profile q)) = []"
proof -
  have R: "reachable s ps \<longrightarrow>
      length ps \<le> 1 \<and> (isLoading_register s \<longleftrightarrow> ps \<noteq> []) \<and>
      (ps \<noteq> [] \<longrightarrow> \<not> offered s Submit \<and> (\<forall>a. offered s a \<longrightarrow> calls a s = [])) \<and>
      (\<forall>r. \<not> isLoading_register (snd (handleSubmit_settle r s)))"
  proof
    assume r: "reachable s ps"
    note i = reachable_in_flight [OF r]
    have c: "\<not> offered s Submit \<and> (\<forall>a. offered s a \<longrightarrow> calls a s = [])" if p: "ps \<noteq> []"
    proof -
      from i p have l: "isLoading_register s" by simp
      have "calls a s = []" if "offered s a" for a
        using that l by (cases a) (simp_all add: submit_disabled_register_def)
      with l show ?thesis by (simp add: submit_disabled_register_def)
    qed
    have "\<not> isLoading_register (snd (handleSubmit_settle r s))" for r
      by (cases r) (simp_all add: handleSubmit_settle_def)
    with i c show "length ps \<le> 1 \<and> (isLoading_register s \<longleftrightarrow> ps \<noteq> []) \<and>
      (ps \<noteq> [] \<longrightarrow> \<not> offered s Submit \<and> (\<forall>a. offered s a \<longrightarrow> calls a s = [])) \<and>
      (\<forall>r. \<not> isLoading_register (snd (handleSubmit_settle r s)))"
      by blast
  qed
  have P: "profile_reachable q jobs \<longrightarrow>
      length jobs \<le> 1 \<and> (isLoading_profile q \<longleftrightarrow> jobs \<noteq> []) \<and>
      (jobs \<noteq> [] \<longrightarrow>
         \<not> profile_offered q SaveDocuments \<and> \<not> profile_offered q FinishEarly \<and>
         (\<forall>form. \<not> profile_offered q (SaveInfo form)) \<and>
         (\<forall>a. profile_offered q a \<longrightarrow> started a q = [])) \<and>
      (\<forall>b j. \<not> isLoading_profile (snd (finish b j q)))"
  proof
    assume r: "profile_reachable q jobs"
    note i = profile_reachable_in_flight [OF r]
    have c: "\<not> profile_offered q SaveDocuments \<and> \<not> profile_offered q FinishEarly \<and>
         (\<forall>form. \<not> profile_offered q (SaveInfo form)) \<and>
         (\<forall>a. profile_offered q a \<longrightarrow> started a q = [])" if p: "jobs \<noteq> []"
    proof -
      from i p have l: "isLoading_profile q" by simp
      then have "\<not> profile_offered q SaveDocuments" "\<not> profile_offered q FinishEarly"
        "\<forall>form. \<not> profile_offered q (SaveInfo form)"
        by (simp_all add: submit_disabled_profile_def)
      moreover have "\<forall>a. profile_offered q a \<longrightarrow> started a q = []"
        using offered_while_loading [of q] l by blast
      ultimately show ?thesis by blast
    qed
    have "\<forall>b j. \<not> isLoading_profile (snd (finish b j q))" by (simp add: isLoading_finish)
    with i c show "length jobs \<le> 1 \<and> (isLoading_profile q \<longleftrightarrow> jobs \<noteq> []) \<and>
      (jobs \<noteq> [] \<longrightarrow>
         \<not> profile_offered q SaveDocuments \<and> \<not> profile_offered q FinishEarly \<and>
         (\<forall>form. \<not> profile_offered q (SaveInfo form)) \<and>
         (\<forall>a. profile_offered q a \<longrightarrow> started a q = [])) \<and>
      (\<forall>b j. \<not> isLoading_profile (snd (finish b j q)))"
      by blast
  qed
  have X1: "filter is_external (fst (handleSubmit registerUser s)) =
            map RegisterUser (calls Submit s)"
    by (auto simp: handleSubmit_def handleSubmit_begin_def handleSubmit_settle_def
        split: option.splits register_result.splits)
  have X2: "filter is_external (fst (handleNextStep_register s)) = []"
    by (simp add: handleNextStep_register_def)
  have X3: "filter is_external (fst (handleFileChange k f q)) = []"
    by (simp add: handleFileChange_def split: option.splits)
  have X4: "filter is_external (fst (handleNextStep_profile q)) = []"
    by (simp add: handleNextStep_profile_def Let_def)
  from R P X1 X2 X3 X4 show ?thesis by (intro conjI)
qed

theorem submit_not_reentrant_witness:
  "reachable (doctor_draft\<lparr>isLoading_register := True\<rparr>) [doctor_call] \<and>
   \<not> offered (doctor_draft\<lparr>isLoading_register := True\<rparr>) Submit \<and>
   offered (doctor_draft\<lparr>isLoading_register := True\<rparr>) Retreat \<and>
   calls Retreat (doctor_draft\<lparr>isLoading_register := True\<rparr>) = [] \<and>
   profile_reachable
     (fst (profile_run documents_session (render (initial_profile_state Map.empty), [])))
     [DocumentsJob complete_documents] \<and>
   isLoading_profile
     (fst (profile_run documents_session (render (initial_profile_state Map.empty), []))) \<and>
   \<not> profile_offered
     (fst (profile_run documents_session (render (initial_profile_state Map.empty), [])))
     SaveDocuments \<and>
   \<not> profile_offered
     (fst (profile_run documents_session (render (initial_profile_state Map.empty), [])))
     FinishEarly"
proof -
  let ?s = "doctor_draft\<lparr>isLoading_register := True\<rparr>"
  let ?q = "fst (profile_run documents_session (render (initial_profile_state Map.empty), []))"
  have r: "reachable ?s [doctor_call]"
    using reachable_run [OF reachable.initial, of doctor_session] run_doctor_session by simp
  have o: "offered ?s Retreat" by (simp add: doctor_draft_def)
  have p: "profile_reachable ?q [DocumentsJob complete_documents]"
    using profile_reachable_run [OF profile_reachable.mount, of documents_session Map.empty]
      run_documents_session by simp
  have c: "calls Retreat ?s = []" by simp
  from submit_not_reentrant [of ?s "[doctor_call]" ?q "[DocumentsJob complete_documents]"] r p
  have "\<not> offered ?s Submit" "isLoading_profile ?q"
    "\<not> profile_offered ?q SaveDocuments" "\<not> profile_offered ?q FinishEarly"
    by blast+
  with r o c p show ?thesis by blast
qed


section \<open>The profile page\<close>

lemma map_of_obj_set: "map_of (obj_set obj k v) = (map_of obj)(k \<mapsto> v)"
  by (induction obj) auto

lemma keys_obj_set_list:
  "map fst (obj_set obj k v) =
     (if k \<in> set (map fst obj) then map fst obj else map fst obj @ [k])"
proof (induction obj)
  case Nil
  show ?case by simp
next
  case (Cons p obj)
  obtain k' v' where p: "p = (k', v')" by (cases p)
  show ?case
  proof (cases "k' = k")
    case True
    with p show ?thesis by simp
  next
    case False
    with p Cons show ?thesis by (simp del: set_map)
  qed
qed

lemma keys_obj_set: "set (map fst (obj_set obj k v)) = insert k (set (map fst obj))"
  unfolding keys_obj_set_list by auto

lemma upload_all_fails:
  "(k, FileObj f) \<in> set docs \<Longrightarrow>
   \<not> uploadBytes b (storage_path uid k) f \<or> getDownloadURL b (storage_path uid k) = None \<Longrightarrow>
   \<exists>evs. upload_all b uid docs urls = (evs, None)"
proof (induction docs arbitrary: urls)
  case Nil
  then show ?case by simp
next
  case (Cons e docs)
  obtain k' v where e: "e = (k', v)" by (cases e)
  show ?case
  proof (cases "e = (k, FileObj f)")
    case True
    with Cons.prems(2) show ?thesis
      by (auto split: option.splits prod.splits)
  next
    case False
    with Cons.prems have "(k, FileObj f) \<in> set docs" by auto
    then have rest: "\<exists>evs. upload_all b uid docs urls' = (evs, None)" for urls'
      using Cons.IH Cons.prems(2) by blast
    show ?thesis
    proof (cases v)
      case (Val j)
      with rest [of urls] e show ?thesis by auto
    next
      case (FileObj g)
      show ?thesis
      proof (cases "uploadBytes b (storage_path uid k') g")
        case False
        with e FileObj show ?thesis by simp
      next
        case True
        show ?thesis
        proof (cases "getDownloadURL b (storage_path uid k')")
          case None
          with True e FileObj show ?thesis by simp
        next
          case (Some url)
          from rest [of "obj_set urls k' url"] obtain evs
            where "upload_all b uid docs (obj_set urls k' url) = (evs, None)" by blast
          with True Some e FileObj show ?thesis by simp
        qed
      qed
    qed
  qed
qed

lemma upload_all_events:
  "upload_all b uid docs urls = (evs, r) \<Longrightarrow> e \<in> set evs \<Longrightarrow>
   \<exists>k f. (k, FileObj f) \<in> set docs \<and>
     (e = UploadBytes (storage_path uid k) f \<or> e = GetDownloadURL (storage_path uid k))"
proof (induction docs arbitrary: urls evs r)
  case Nil
  then show ?case by simp
next
  case (Cons d docs)
  obtain k v where d: "d = (k, v)" by (cases d)
  show ?case
  proof (cases v)
    case (Val j)
    with Cons.prems d have "upload_all b uid docs urls = (evs, r)" by (simp split: if_splits)
    from Cons.IH [OF this Cons.prems(2)] show ?thesis by auto
  next
    case (FileObj f)
    let ?p = "storage_path uid k"
    have here: "(k, FileObj f) \<in> set (d # docs)" using d FileObj by simp
    show ?thesis
    proof (cases "e = UploadBytes ?p f \<or> e = GetDownloadURL ?p")
      case True
      with here show ?thesis by blast
    next
      case False
      with Cons.prems d FileObj obtain url evs' where
        "upload_all b uid docs (obj_set urls k url) = (evs', r)" "e \<in> set evs'"
        by (auto split: if_splits option.splits prod.splits)
      from Cons.IH [OF this] show ?thesis by auto
    qed
  qed
qed

lemma upload_all_keys:
  "upload_all b uid docs urls = (evs, Some urls') \<Longrightarrow>
   set (map fst urls') = set (map fst urls) \<union> {k. \<exists>f. (k, FileObj f) \<in> set docs}"
proof (induction docs arbitrary: urls evs)
  case Nil
  then show ?case by simp
next
  case (Cons d docs)
  obtain k v where d: "d = (k, v)" by (cases d)
  show ?case
  proof (cases v)
    case (Val j)
    with Cons.prems d have "upload_all b uid docs urls = (evs, Some urls')"
      by (simp split: if_splits)
    from Cons.IH [OF this] show ?thesis using d Val by auto
  next
    case (FileObj f)
    with Cons.prems d obtain url evs' where
      "upload_all b uid docs (obj_set urls k url) = (evs', Some urls')"
      by (auto split: if_splits option.splits prod.splits)
    from Cons.IH [OF this]
    have "set (map fst urls') =
          insert k (set (map fst urls)) \<union> {k. \<exists>f. (k, FileObj f) \<in> set docs}"
      by (simp only: keys_obj_set)
    moreover have "{k'. \<exists>f. (k', FileObj f) \<in> set (d # docs)} =
                   insert k {k'. \<exists>f. (k', FileObj f) \<in> set docs}"
      using d FileObj by auto
    ultimately show ?thesis by (simp only: Un_insert_left Un_insert_right)
  qed
qed

lemma upload_all_no_toast:
  "upload_all b uid docs urls = (evs, r) \<Longrightarrow> filter is_toast evs = [] \<and> filter is_AddDoc evs = []"
proof -
  assume u: "upload_all b uid docs urls = (evs, r)"
  have "\<not> is_toast e \<and> \<not> is_AddDoc e" if "e \<in> set evs" for e
    using upload_all_events [OF u that] by auto
  then show ?thesis by (simp add: filter_empty_conv)
qed

lemma upload_all_no_File:
  "\<forall>v \<in> snd ` set docs. \<not> instanceof_File v \<Longrightarrow> upload_all b uid docs urls = ([], Some urls)"
proof (induction docs)
  case Nil
  show ?case by simp
next
  case (Cons d docs)
  obtain k v where d: "d = (k, v)" by (cases d)
  with Cons.prems obtain j where "v = Val j" by (cases v) auto
  with Cons d show ?case by simp
qed

lemma parse_no_File: "\<forall>v \<in> snd ` set (parse saved). \<not> instanceof_File v"
  by (auto simp: parse_def)

lemma complete_documents_present:
  "\<not> falsy complete_documents ''rgFile''" "\<not> falsy complete_documents ''cpfFile''"
  "\<not> falsy complete_documents ''photo''" "\<not> falsy complete_documents ''proofOfResidence''"
  "\<not> falsy complete_documents ''crmFile''" "\<not> falsy complete_documents ''curriculum''"
  "\<not> falsy complete_documents ''criminalRecord''" "\<not> falsy complete_documents ''ethicalRecord''"
  "\<not> falsy complete_documents ''debtRecord''" "\<not> falsy complete_documents ''graduationCertificate''"
  by (simp_all add: falsy_def complete_documents_def document_keys_def requiredDocs_def)

text \<open>
  C1: when the upload of some selected document throws (\<^verbatim>\<open>uploadBytes\<close> or
  \<^verbatim>\<open>getDownloadURL\<close>), \<open>handleSaveDocuments\<close> never calls \<^verbatim>\<open>addDoc\<close>, shows exactly one
  toast, the error "Erro ao salvar", and leaves \<open>documents\<close> as it was before the call,
  also after the render that follows (the state is the old one with the loading flag
  cleared).
\<close>

theorem handleSaveDocuments_upload_failure:
  "currentUser b = Some uid \<Longrightarrow> (k, FileObj f) \<in> set (documents s) \<Longrightarrow>
   \<not> uploadBytes b (storage_path uid k) f \<or> getDownloadURL b (storage_path uid k) = None \<Longrightarrow>
   filter is_AddDoc (fst (handleSaveDocuments b s)) = [] \<and>
   filter is_toast (fst (handleSaveDocuments b s)) = [Toast ErroAoSalvar] \<and>
   snd (handleSaveDocuments b s) = s\<lparr>isLoading_profile := False\<rparr> \<and>
   documents (render (snd (handleSaveDocuments b s))) = documents s"
proof -
  assume u: "currentUser b = Some uid" and d: "(k, FileObj f) \<in> set (documents s)"
    and t: "\<not> uploadBytes b (storage_path uid k) f \<or> getDownloadURL b (storage_path uid k) = None"
  from upload_all_fails [OF d t] obtain evs
    where up: "upload_all b uid (documents s) [] = (evs, None)" by blast
  from upload_all_no_toast [OF up] have ev: "filter is_toast evs = []" "filter is_AddDoc evs = []"
    by simp_all
  have h: "handleSaveDocuments b s =
           (evs @ [ConsoleError, Toast ErroAoSalvar], s\<lparr>isLoading_profile := False\<rparr>)"
    by (simp add: handleSaveDocuments_def handleSaveDocuments_finish_def handleSaveDocuments_begin_def u up)
  show ?thesis by (simp add: h ev render_def persist_effect_def)
qed

theorem handleSaveDocuments_upload_failure_witness:
  "currentUser failing_backend = Some ''u1'' \<and>
   (''cpfFile'', FileObj (scan_of ''cpfFile'')) \<in> set (documents complete_profile) \<and>
   \<not> uploadBytes failing_backend (storage_path ''u1'' ''cpfFile'') (scan_of ''cpfFile'') \<and>
   filter is_AddDoc (fst (handleSaveDocuments failing_backend complete_profile)) = [] \<and>
   filter is_toast (fst (handleSaveDocuments failing_backend complete_profile)) = [Toast ErroAoSalvar] \<and>
   documents (snd (handleSaveDocuments failing_backend complete_profile)) = documents complete_profile"
proof -
  have u: "currentUser failing_backend = Some ''u1''"
    by (simp add: failing_backend_def ok_backend_def)
  have d: "(''cpfFile'', FileObj (scan_of ''cpfFile'')) \<in> set (documents complete_profile)"
    by (simp add: complete_profile_def complete_documents_def document_keys_def requiredDocs_def)
  have t: "\<not> uploadBytes failing_backend (storage_path ''u1'' ''cpfFile'') (scan_of ''cpfFile'')"
    by (simp add: failing_backend_def storage_path_def)
  from handleSaveDocuments_upload_failure [OF u d disjI1 [OF t]] u d t
  show ?thesis by simp
qed

text \<open>The calls made when the second of the ten documents fails: the first upload stays done.\<close>

theorem handleSaveDocuments_partial_trace:
  "fst (handleSaveDocuments failing_backend complete_profile) =
     [UploadBytes ''documents/u1/rgFile'' (scan_of ''rgFile''),
      GetDownloadURL ''documents/u1/rgFile'',
      UploadBytes ''documents/u1/cpfFile'' (scan_of ''cpfFile''),
      ConsoleError, Toast ErroAoSalvar]"
  by (simp add: handleSaveDocuments_def handleSaveDocuments_finish_def handleSaveDocuments_begin_def failing_backend_def ok_backend_def complete_profile_def
      complete_documents_def document_keys_def requiredDocs_def storage_path_def)

text \<open>
  C4: \<open>handleNextStep\<close> of the profile page. At step 0 it moves to step 1 iff the four
  personal slots (\<^verbatim>\<open>rgFile\<close>, \<^verbatim>\<open>cpfFile\<close>, \<^verbatim>\<open>photo\<close>, \<^verbatim>\<open>proofOfResidence\<close>) all hold a
  document, and otherwise shows the toast about personal documents and stays at 0. At
  step 1 it moves to step 2 iff the six professional slots all hold a document, and
  otherwise shows the toast about professional documents and stays at 1. At step 2 it
  does nothing. A slot holds a document when its value is truthy.
\<close>

theorem handleNextStep_profile_gate:
  "(currentStep s = 0 \<longrightarrow>
      handleNextStep_profile s =
        (if \<not> falsy (documents s) ''rgFile'' \<and> \<not> falsy (documents s) ''cpfFile'' \<and>
            \<not> falsy (documents s) ''photo'' \<and> \<not> falsy (documents s) ''proofOfResidence''
         then ([], s\<lparr>currentStep := 1\<rparr>)
         else ([Toast DocumentosPessoaisObrigatorios], s))) \<and>
   (currentStep s = 1 \<longrightarrow>
      handleNextStep_profile s =
        (if \<not> falsy (documents s) ''crmFile'' \<and> \<not> falsy (documents s) ''curriculum'' \<and>
            \<not> falsy (documents s) ''criminalRecord'' \<and> \<not> falsy (documents s) ''ethicalRecord'' \<and>
            \<not> falsy (documents s) ''debtRecord'' \<and>
            \<not> falsy (documents s) ''graduationCertificate''
         then ([], s\<lparr>currentStep := 2\<rparr>)
         else ([Toast DocumentosProfissionaisObrigatorios], s))) \<and>
   (currentStep s = 2 \<longrightarrow> handleNextStep_profile s = ([], s))"
  by (simp add: handleNextStep_profile_def steps_def Let_def)

theorem handleNextStep_profile_gate_witness:
  "currentStep missing_photo = 0 \<and> falsy (documents missing_photo) ''photo'' \<and>
   handleNextStep_profile missing_photo = ([Toast DocumentosPessoaisObrigatorios], missing_photo) \<and>
   handleNextStep_profile (complete_profile\<lparr>currentStep := 0\<rparr>) = ([], complete_profile\<lparr>currentStep := 1\<rparr>) \<and>
   handleNextStep_profile (complete_profile\<lparr>currentStep := 1\<rparr>) = ([], complete_profile\<lparr>currentStep := 2\<rparr>) \<and>
   currentStep complete_profile = 2 \<and>
   handleNextStep_profile complete_profile = ([], complete_profile)"
proof -
  have m: "falsy (documents missing_photo) ''photo''"
    by (simp add: missing_photo_def complete_profile_def falsy_def map_of_obj_set)
  have c: "documents (complete_profile\<lparr>currentStep := n\<rparr>) = complete_documents" for n
    by (simp add: complete_profile_def)
  show ?thesis
    using handleNextStep_profile_gate [of missing_photo]
      handleNextStep_profile_gate [of "complete_profile\<lparr>currentStep := 0\<rparr>"]
      handleNextStep_profile_gate [of "complete_profile\<lparr>currentStep := 1\<rparr>"]
      handleNextStep_profile_gate [of complete_profile] m
    by (simp add: c complete_documents_present) (simp add: missing_photo_def complete_profile_def)
qed

text \<open>
  C7: \<open>handleFileChange\<close> with a selected file. A file of at most 5,242,880 bytes whose
  type is \<^verbatim>\<open>application/pdf\<close>, \<^verbatim>\<open>image/jpeg\<close> or \<^verbatim>\<open>image/png\<close> is stored under the input's
  name, replacing what was there, every other key keeping its value, with no toast. A
  larger file gives the toast "Arquivo muito grande" and a file of another type the
  different toast "Formato invalido"; in both cases the state, and so the document set,
  is returned unchanged.
\<close>

theorem handleFileChange_guard:
  "(file_size f \<le> 5242880 \<and>
    file_type f \<in> {''application/pdf'', ''image/jpeg'', ''image/png''} \<longrightarrow>
      fst (handleFileChange k (Some f) s) = [] \<and>
      map_of (documents (snd (handleFileChange k (Some f) s))) k = Some (FileObj f) \<and>
      (\<forall>k'. k' \<noteq> k \<longrightarrow>
         map_of (documents (snd (handleFileChange k (Some f) s))) k' = map_of (documents s) k') \<and>
      set (map fst (documents (snd (handleFileChange k (Some f) s)))) =
        insert k (set (map fst (documents s))) \<and>
      snd (handleFileChange k (Some f) s) =
        s\<lparr>documents := documents (snd (handleFileChange k (Some f) s)), documents_changed := True\<rparr>) \<and>
   (5242880 < file_size f \<longrightarrow>
      handleFileChange k (Some f) s = ([Toast ArquivoMuitoGrande], s)) \<and>
   (file_size f \<le> 5242880 \<and>
    file_type f \<notin> {''application/pdf'', ''image/jpeg'', ''image/png''} \<longrightarrow>
      handleFileChange k (Some f) s = ([Toast FormatoInvalido], s)) \<and>
   ArquivoMuitoGrande \<noteq> FormatoInvalido"
proof -
  have ok: "file_size f \<le> 5242880 \<and>
            file_type f \<in> {''application/pdf'', ''image/jpeg'', ''image/png''} \<Longrightarrow>
            handleFileChange k (Some f) s =
              ([], setDocuments (obj_set (documents s) k (FileObj f)) s)"
    by (auto simp: handleFileChange_def)
  have big: "5242880 < file_size f \<Longrightarrow>
             handleFileChange k (Some f) s = ([Toast ArquivoMuitoGrande], s)"
    by (simp add: handleFileChange_def)
  have bad: "file_size f \<le> 5242880 \<and>
             file_type f \<notin> {''application/pdf'', ''image/jpeg'', ''image/png''} \<Longrightarrow>
             handleFileChange k (Some f) s = ([Toast FormatoInvalido], s)"
    by (auto simp: handleFileChange_def)
  show ?thesis
    using ok big bad
    by (simp add: setDocuments_def map_of_obj_set keys_obj_set del: set_map)
qed

theorem handleFileChange_guard_witness:
  "handleFileChange ''photo''
     (Some \<lparr>file_name = ''big.pdf'', file_size = 6291456, file_type = ''application/pdf''\<rparr>)
     missing_photo = ([Toast ArquivoMuitoGrande], missing_photo) \<and>
   handleFileChange ''photo''
     (Some \<lparr>file_name = ''notes.txt'', file_size = 1024, file_type = ''text/plain''\<rparr>)
     missing_photo = ([Toast FormatoInvalido], missing_photo) \<and>
   fst (handleFileChange ''photo''
     (Some \<lparr>file_name = ''me.png'', file_size = 2097152, file_type = ''image/png''\<rparr>)
     missing_photo) = [] \<and>
   map_of (documents (snd (handleFileChange ''photo''
     (Some \<lparr>file_name = ''me.png'', file_size = 2097152, file_type = ''image/png''\<rparr>)
     missing_photo))) ''photo'' =
   Some (FileObj \<lparr>file_name = ''me.png'', file_size = 2097152, file_type = ''image/png''\<rparr>)"
  using handleFileChange_guard
      [of "\<lparr>file_name = ''big.pdf'', file_size = 6291456, file_type = ''application/pdf''\<rparr>"
          "''photo''" missing_photo]
    handleFileChange_guard
      [of "\<lparr>file_name = ''notes.txt'', file_size = 1024, file_type = ''text/plain''\<rparr>"
          "''photo''" missing_photo]
    handleFileChange_guard
      [of "\<lparr>file_name = ''me.png'', file_size = 2097152, file_type = ''image/png''\<rparr>"
          "''photo''" missing_photo]
  by simp

lemma upload_all_exact:
  "upload_all b uid docs urls = (evs, r) \<Longrightarrow>
   (\<exists>n. evs = take n (concat (map (upload_calls uid) (file_entries docs)))) \<and>
   (\<forall>urls'. r = Some urls' \<longrightarrow>
      evs = concat (map (upload_calls uid) (file_entries docs)) \<and>
      urls' = foldl (\<lambda>urls e. case getDownloadURL b (storage_path uid (fst e)) of
                                 Some url \<Rightarrow> obj_set urls (fst e) url
                               | None \<Rightarrow> urls) urls (file_entries docs))"
proof (induction docs arbitrary: urls evs r)
  case Nil
  then show ?case by (auto simp: file_entries_def)
next
  case (Cons d docs)
  obtain k v where d: "d = (k, v)" by (cases d)
  show ?case
  proof (cases v)
    case (Val j)
    with Cons.prems d have "upload_all b uid docs urls = (evs, r)" by (simp split: if_splits)
    from Cons.IH [OF this] show ?thesis using d Val by (simp add: file_entries_def)
  next
    case (FileObj f)
    let ?p = "storage_path uid k"
    let ?rest = "concat (map (upload_calls uid) (file_entries docs))"
    have fe: "file_entries (d # docs) = (k, f) # file_entries docs"
      using d FileObj by (simp add: file_entries_def)
    have cs: "concat (map (upload_calls uid) (file_entries (d # docs))) =
              UploadBytes ?p f # GetDownloadURL ?p # ?rest"
      by (simp add: fe upload_calls_def)
    show ?thesis
    proof (cases "uploadBytes b ?p f")
      case False
      with Cons.prems d FileObj have "evs = [UploadBytes ?p f]" "r = None" by simp_all
      then have "evs = take 1 (UploadBytes ?p f # GetDownloadURL ?p # ?rest)" "r = None"
        by simp_all
      then show ?thesis unfolding cs by blast
    next
      case True
      show ?thesis
      proof (cases "getDownloadURL b ?p")
        case None
        with True Cons.prems d FileObj
        have "evs = [UploadBytes ?p f, GetDownloadURL ?p]" "r = None" by simp_all
        then have "evs = take 2 (UploadBytes ?p f # GetDownloadURL ?p # ?rest)" "r = None"
          by simp_all
        then show ?thesis unfolding cs by blast
      next
        case (Some url)
        obtain evs' r' where u: "upload_all b uid docs (obj_set urls k url) = (evs', r')"
          by (cases "upload_all b uid docs (obj_set urls k url)")
        with True Some Cons.prems d FileObj
        have e: "evs = UploadBytes ?p f # GetDownloadURL ?p # evs'" and r: "r = r'" by simp_all
        from Cons.IH [OF u] obtain n where n: "evs' = take n ?rest" and
          ok: "\<And>urls'. r' = Some urls' \<Longrightarrow> evs' = ?rest \<and>
             urls' = foldl (\<lambda>urls e. case getDownloadURL b (storage_path uid (fst e)) of
                                 Some url \<Rightarrow> obj_set urls (fst e) url
                               | None \<Rightarrow> urls) (obj_set urls k url) (file_entries docs)"
          by blast
        have "evs = take (Suc (Suc n)) (UploadBytes ?p f # GetDownloadURL ?p # ?rest)"
          using e n by simp
        moreover have "\<forall>urls'. r = Some urls' \<longrightarrow>
           evs = UploadBytes ?p f # GetDownloadURL ?p # ?rest \<and>
           urls' = foldl (\<lambda>urls e. case getDownloadURL b (storage_path uid (fst e)) of
                                 Some url \<Rightarrow> obj_set urls (fst e) url
                               | None \<Rightarrow> urls) urls (file_entries (d # docs))"
          using ok e r Some by (simp add: fe)
        ultimately show ?thesis unfolding cs by blast
      qed
    qed
  qed
qed

lemma upload_all_uploads:
  "upload_all b uid docs urls = (evs, r) \<Longrightarrow> evs = uploads_until_throw b uid (file_entries docs)"
proof (induction docs arbitrary: urls evs r)
  case Nil
  then show ?case by (auto simp: file_entries_def)
next
  case (Cons d docs)
  obtain k v where d: "d = (k, v)" by (cases d)
  show ?case
  proof (cases v)
    case (Val j)
    with Cons.prems d have "upload_all b uid docs urls = (evs, r)" by (simp split: if_splits)
    from Cons.IH [OF this] show ?thesis using d Val by (simp add: file_entries_def)
  next
    case (FileObj f)
    have fe: "file_entries ((k, FileObj f) # docs) = (k, f) # file_entries docs"
      by (simp add: file_entries_def)
    show ?thesis
    proof (cases "uploadBytes b (storage_path uid k) f")
      case False
      with Cons.prems d FileObj show ?thesis by (auto simp: fe)
    next
      case True
      show ?thesis
      proof (cases "getDownloadURL b (storage_path uid k)")
        case None
        with True Cons.prems d FileObj show ?thesis by (auto simp: fe upload_calls_def)
      next
        case (Some url)
        obtain evs' r' where u: "upload_all b uid docs (obj_set urls k url) = (evs', r')"
          by (cases "upload_all b uid docs (obj_set urls k url)")
        from Cons.IH [OF u] have "evs' = uploads_until_throw b uid (file_entries docs)" .
        with u True Some Cons.prems d FileObj show ?thesis by (auto simp: fe upload_calls_def)
      qed
    qed
  qed
qed

lemma upload_all_succeeds:
  "\<forall>p f. uploadBytes b p f \<Longrightarrow> \<forall>p. getDownloadURL b p \<noteq> None \<Longrightarrow>
   \<exists>evs urls'. upload_all b uid docs urls = (evs, Some urls')"
proof (induction docs arbitrary: urls)
  case Nil
  show ?case by simp
next
  case (Cons d docs)
  obtain k v where d: "d = (k, v)" by (cases d)
  show ?case
  proof (cases v)
    case (Val j)
    with Cons d show ?thesis by simp
  next
    case (FileObj f)
    from Cons.prems(2) obtain url where url: "getDownloadURL b (storage_path uid k) = Some url"
      by auto
    from Cons.IH [OF Cons.prems, of "obj_set urls k url"] obtain evs urls'
      where "upload_all b uid docs (obj_set urls k url) = (evs, Some urls')" by blast
    with Cons.prems(1) url d FileObj show ?thesis by simp
  qed
qed

lemma mixed_profile_documents:
  "documents mixed_profile =
     (''rgFile'', FileObj (scan_of ''rgFile'')) #
     map (\<lambda>k. (k, Val (if k \<in> set requiredDocs then JObj [] else JNull))) (tl document_keys)"
  by (simp add: mixed_profile_def reloaded_profile_def initial_profile_state_def
      initial_documents_def parse_def stringify_def complete_documents_def document_keys_def
      requiredDocs_def)

lemma file_entries_mixed: "file_entries (documents mixed_profile) = [(''rgFile'', scan_of ''rgFile'')]"
  by (simp add: mixed_profile_documents file_entries_def document_keys_def)

lemma file_entries_complete:
  "file_entries (documents complete_profile) =
     map (\<lambda>k. (k, scan_of k))
       [''rgFile'', ''cpfFile'', ''crmFile'', ''photo'', ''curriculum'', ''criminalRecord'',
        ''ethicalRecord'', ''debtRecord'', ''proofOfResidence'', ''graduationCertificate'']"
  by (simp add: complete_profile_def complete_documents_def file_entries_def document_keys_def
      requiredDocs_def)

text \<open>
  C10: \<open>handleSaveDocuments\<close> uploads, asks a URL for, and lists in the record it writes,
  exactly the slots whose value is a \<^verbatim>\<open>File\<close>: the uploads it makes are those of the
  \<^verbatim>\<open>File\<close> slots, in property order, up to and including the first call that throws, and a record is
  written only after all of them, with exactly one URL per \<^verbatim>\<open>File\<close> slot. A slot whose
  value is not a \<^verbatim>\<open>File\<close> adds no call and no key. A slot restored from \<^verbatim>\<open>localStorage\<close>
  never holds a \<^verbatim>\<open>File\<close>, so a submit right after a reload uploads nothing and writes a
  record with an empty \<^verbatim>\<open>documents\<close> mapping, although such slots count as present.
\<close>

theorem handleSaveDocuments_only_files:
  "currentUser b = Some uid \<Longrightarrow>
   (\<forall>p f. UploadBytes p f \<in> set (fst (handleSaveDocuments b s)) \<longrightarrow>
      (\<exists>k. (k, FileObj f) \<in> set (documents s) \<and> p = storage_path uid k)) \<and>
   (\<forall>p. GetDownloadURL p \<in> set (fst (handleSaveDocuments b s)) \<longrightarrow>
      (\<exists>k f. (k, FileObj f) \<in> set (documents s) \<and> p = storage_path uid k)) \<and>
   (\<forall>c urls u. AddDoc c urls u \<in> set (fst (handleSaveDocuments b s)) \<longrightarrow>
      set (map fst urls) = {k. \<exists>f. (k, FileObj f) \<in> set (documents s)}) \<and>
   (ls storage_key = Some saved \<longrightarrow>
      (\<forall>v \<in> snd ` set (initial_documents ls). \<not> instanceof_File v) \<and>
      filter is_external (fst (handleSaveDocuments b (initial_profile_state ls))) =
        [AddDoc ''users'' [] uid]) \<and>
   (\<exists>n. filter is_upload (fst (handleSaveDocuments b s)) =
      take n (concat (map (upload_calls uid) (file_entries (documents s))))) \<and>
   (\<forall>c urls u. AddDoc c urls u \<in> set (fst (handleSaveDocuments b s)) \<longrightarrow>
      filter is_external (fst (handleSaveDocuments b s)) =
        concat (map (upload_calls uid) (file_entries (documents s))) @
        [AddDoc ''users'' (issued_urls b uid (file_entries (documents s))) uid] \<and>
      c = ''users'' \<and> urls = issued_urls b uid (file_entries (documents s)) \<and> u = uid) \<and>
   filter is_upload (fst (handleSaveDocuments b s)) =
     uploads_until_throw b uid (file_entries (documents s))"
proof -
  assume u: "currentUser b = Some uid"
  obtain evs r where up: "upload_all b uid (documents s) [] = (evs, r)"
    by (cases "upload_all b uid (documents s) []")
  have ev: "e \<in> set evs \<Longrightarrow>
      \<exists>k f. (k, FileObj f) \<in> set (documents s) \<and>
        (e = UploadBytes (storage_path uid k) f \<or> e = GetDownloadURL (storage_path uid k))" for e
    using upload_all_events [OF up] by blast
  have sub: "set (fst (handleSaveDocuments b s)) \<subseteq>
      set evs \<union> {ConsoleError, Toast ErroAoSalvar, Toast DocumentosSalvos} \<union>
      (case r of None \<Rightarrow> {} | Some urls \<Rightarrow> {AddDoc ''users'' urls uid})"
    by (auto simp: handleSaveDocuments_def handleSaveDocuments_finish_def Let_def u up split: option.splits)
  have A: "\<forall>p f. UploadBytes p f \<in> set (fst (handleSaveDocuments b s)) \<longrightarrow>
      (\<exists>k. (k, FileObj f) \<in> set (documents s) \<and> p = storage_path uid k)"
  proof (intro allI impI)
    fix p f assume "UploadBytes p f \<in> set (fst (handleSaveDocuments b s))"
    with sub have "UploadBytes p f \<in> set evs" by (auto split: option.splits)
    from ev [OF this] show "\<exists>k. (k, FileObj f) \<in> set (documents s) \<and> p = storage_path uid k"
      by auto
  qed
  have B: "\<forall>p. GetDownloadURL p \<in> set (fst (handleSaveDocuments b s)) \<longrightarrow>
      (\<exists>k f. (k, FileObj f) \<in> set (documents s) \<and> p = storage_path uid k)"
  proof (intro allI impI)
    fix p assume "GetDownloadURL p \<in> set (fst (handleSaveDocuments b s))"
    with sub have "GetDownloadURL p \<in> set evs" by (auto split: option.splits)
    from ev [OF this] show "\<exists>k f. (k, FileObj f) \<in> set (documents s) \<and> p = storage_path uid k"
      by auto
  qed
  have C: "\<forall>c urls w. AddDoc c urls w \<in> set (fst (handleSaveDocuments b s)) \<longrightarrow>
      set (map fst urls) = {k. \<exists>f. (k, FileObj f) \<in> set (documents s)}"
  proof (intro allI impI)
    fix c urls w assume a: "AddDoc c urls w \<in> set (fst (handleSaveDocuments b s))"
    have "AddDoc c urls w \<notin> set evs" using ev [of "AddDoc c urls w"] by auto
    with a sub have "r = Some urls" by (auto split: option.splits)
    with up have "upload_all b uid (documents s) [] = (evs, Some urls)" by simp
    from upload_all_keys [OF this]
    show "set (map fst urls) = {k. \<exists>f. (k, FileObj f) \<in> set (documents s)}" by simp
  qed
  have D: "ls storage_key = Some saved \<longrightarrow>
      (\<forall>v \<in> snd ` set (initial_documents ls). \<not> instanceof_File v) \<and>
      filter is_external (fst (handleSaveDocuments b (initial_profile_state ls))) =
        [AddDoc ''users'' [] uid]"
  proof
    assume l: "ls storage_key = Some saved"
    then have i: "initial_documents ls = parse saved" by (simp add: initial_documents_def)
    have n: "\<forall>v \<in> snd ` set (initial_documents ls). \<not> instanceof_File v"
      unfolding i by (rule parse_no_File)
    have "upload_all b uid (documents (initial_profile_state ls)) [] = ([], Some [])"
      using upload_all_no_File [OF n] by (simp add: initial_profile_state_def)
    then have "filter is_external (fst (handleSaveDocuments b (initial_profile_state ls))) =
        [AddDoc ''users'' [] uid]"
      by (simp add: handleSaveDocuments_def handleSaveDocuments_finish_def Let_def u)
    with n show "(\<forall>v \<in> snd ` set (initial_documents ls). \<not> instanceof_File v) \<and>
      filter is_external (fst (handleSaveDocuments b (initial_profile_state ls))) =
        [AddDoc ''users'' [] uid]" by blast
  qed
  from upload_all_exact [OF up] obtain n where
    n: "evs = take n (concat (map (upload_calls uid) (file_entries (documents s))))" and
    ok: "\<And>urls. r = Some urls \<Longrightarrow>
           evs = concat (map (upload_calls uid) (file_entries (documents s))) \<and>
           urls = issued_urls b uid (file_entries (documents s))"
    by (auto simp: issued_urls_def)
  have "is_upload e \<and> is_external e" if "e \<in> set evs" for e
    using ev [OF that] by auto
  then have up_evs: "filter is_upload evs = evs" "filter is_external evs = evs"
    by (simp_all add: filter_id_conv)
  have E: "\<exists>n. filter is_upload (fst (handleSaveDocuments b s)) =
      take n (concat (map (upload_calls uid) (file_entries (documents s))))"
  proof -
    have "filter is_upload (fst (handleSaveDocuments b s)) = evs"
      using up_evs
      by (auto simp: handleSaveDocuments_def handleSaveDocuments_finish_def Let_def u up
          split: option.splits)
    with n show ?thesis by blast
  qed
  have F: "\<forall>c urls w. AddDoc c urls w \<in> set (fst (handleSaveDocuments b s)) \<longrightarrow>
      filter is_external (fst (handleSaveDocuments b s)) =
        concat (map (upload_calls uid) (file_entries (documents s))) @
        [AddDoc ''users'' (issued_urls b uid (file_entries (documents s))) uid] \<and>
      c = ''users'' \<and> urls = issued_urls b uid (file_entries (documents s)) \<and> w = uid"
  proof (intro allI impI)
    fix c urls w assume a: "AddDoc c urls w \<in> set (fst (handleSaveDocuments b s))"
    have "AddDoc c urls w \<notin> set evs" using ev [of "AddDoc c urls w"] by auto
    with a sub have r: "r = Some urls" and cw: "c = ''users''" "w = uid"
      by (auto split: option.splits)
    from ok [OF r] have e: "evs = concat (map (upload_calls uid) (file_entries (documents s)))"
      and us: "urls = issued_urls b uid (file_entries (documents s))" by simp_all
    have "filter is_external (fst (handleSaveDocuments b s)) = evs @ [AddDoc ''users'' urls uid]"
      using up_evs
      by (auto simp: handleSaveDocuments_def handleSaveDocuments_finish_def Let_def u up r)
    with e us cw show "filter is_external (fst (handleSaveDocuments b s)) =
        concat (map (upload_calls uid) (file_entries (documents s))) @
        [AddDoc ''users'' (issued_urls b uid (file_entries (documents s))) uid] \<and>
      c = ''users'' \<and> urls = issued_urls b uid (file_entries (documents s)) \<and> w = uid"
      by simp
  qed
  have G: "filter is_upload (fst (handleSaveDocuments b s)) =
     uploads_until_throw b uid (file_entries (documents s))"
  proof -
    have "filter is_upload (fst (handleSaveDocuments b s)) = evs"
      using up_evs
      by (auto simp: handleSaveDocuments_def handleSaveDocuments_finish_def Let_def u up
          split: option.splits)
    with upload_all_uploads [OF up] show ?thesis by simp
  qed
  from A B C D E F G show ?thesis by blast
qed

theorem handleSaveDocuments_only_files_witness:
  "currentUser ok_backend = Some ''u1'' \<and>
   localStorage reloaded_profile storage_key = Some (stringify complete_documents) \<and>
   \<not> falsy (documents reloaded_profile) ''rgFile'' \<and>
   filter is_external (fst (handleSaveDocuments ok_backend reloaded_profile)) =
     [AddDoc ''users'' [] ''u1''] \<and>
   \<not> falsy (documents mixed_profile) ''cpfFile'' \<and>
   filter is_external (fst (handleSaveDocuments ok_backend mixed_profile)) =
     [UploadBytes ''documents/u1/rgFile'' (scan_of ''rgFile''),
      GetDownloadURL ''documents/u1/rgFile'',
      AddDoc ''users'' [(''rgFile'', ''https://files/documents/u1/rgFile'')] ''u1''] \<and>
   filter is_upload (fst (handleSaveDocuments ok_backend complete_profile)) =
     concat (map (\<lambda>k. [UploadBytes (storage_path ''u1'' k) (scan_of k),
                        GetDownloadURL (storage_path ''u1'' k)])
       [''rgFile'', ''cpfFile'', ''crmFile'', ''photo'', ''curriculum'', ''criminalRecord'',
        ''ethicalRecord'', ''debtRecord'', ''proofOfResidence'', ''graduationCertificate'']) \<and>
   filter is_upload (fst (handleSaveDocuments failing_backend complete_profile)) =
     [UploadBytes ''documents/u1/rgFile'' (scan_of ''rgFile''),
      GetDownloadURL ''documents/u1/rgFile'',
      UploadBytes ''documents/u1/cpfFile'' (scan_of ''cpfFile'')]"
proof -
  let ?ls = "[storage_key \<mapsto> stringify complete_documents]"
  have u: "currentUser ok_backend = Some ''u1''" by (simp add: ok_backend_def)
  have l: "?ls storage_key = Some (stringify complete_documents)" by simp
  have p: "\<not> falsy (documents reloaded_profile) ''rgFile''"
    by (simp add: reloaded_profile_def initial_profile_state_def initial_documents_def parse_def
        stringify_def complete_documents_def document_keys_def requiredDocs_def falsy_def)
  have q: "\<not> falsy (documents mixed_profile) ''cpfFile''"
    by (simp add: mixed_profile_documents document_keys_def requiredDocs_def falsy_def)
  have sent: "AddDoc c urls w \<in> set (fst (handleSaveDocuments ok_backend s)) \<Longrightarrow>
      filter is_external (fst (handleSaveDocuments ok_backend s)) =
        concat (map (upload_calls ''u1'') (file_entries (documents s))) @
        [AddDoc ''users'' (issued_urls ok_backend ''u1'' (file_entries (documents s))) ''u1'']"
    for s c urls w
    using handleSaveDocuments_only_files [OF u, of s ?ls "stringify complete_documents"]
    by blast
  have "filter is_external (fst (handleSaveDocuments ok_backend (initial_profile_state ?ls))) =
     [AddDoc ''users'' [] ''u1'']"
    using handleSaveDocuments_only_files [OF u, of complete_profile ?ls "stringify complete_documents"] l
    by blast
  then have r: "filter is_external (fst (handleSaveDocuments ok_backend reloaded_profile)) =
     [AddDoc ''users'' [] ''u1'']"
    by (simp only: reloaded_profile_def)
  have um: "upload_all ok_backend ''u1'' (documents mixed_profile) [] =
      ([UploadBytes ''documents/u1/rgFile'' (scan_of ''rgFile''),
        GetDownloadURL ''documents/u1/rgFile''],
       Some [(''rgFile'', ''https://files/documents/u1/rgFile'')])"
    by (simp add: mixed_profile_documents ok_backend_def document_keys_def requiredDocs_def
        storage_path_def)
  have am: "AddDoc ''users'' [(''rgFile'', ''https://files/documents/u1/rgFile'')] ''u1''
      \<in> set (fst (handleSaveDocuments ok_backend mixed_profile))"
    by (simp add: handleSaveDocuments_def handleSaveDocuments_finish_def u um)
  have im: "issued_urls ok_backend ''u1'' [(''rgFile'', scan_of ''rgFile'')] =
      [(''rgFile'', ''https://files/documents/u1/rgFile'')]"
    by (simp add: issued_urls_def ok_backend_def storage_path_def)
  have m: "filter is_external (fst (handleSaveDocuments ok_backend mixed_profile)) =
     [UploadBytes ''documents/u1/rgFile'' (scan_of ''rgFile''),
      GetDownloadURL ''documents/u1/rgFile'',
      AddDoc ''users'' [(''rgFile'', ''https://files/documents/u1/rgFile'')] ''u1'']"
    by (simp only: sent [OF am] file_entries_mixed im) (simp add: upload_calls_def storage_path_def)
  obtain evs urls where uc: "upload_all ok_backend ''u1'' (documents complete_profile) [] = (evs, Some urls)"
    using upload_all_succeeds [of ok_backend "''u1''" "documents complete_profile" "[]"]
    by (auto simp: ok_backend_def)
  have ac: "AddDoc ''users'' urls ''u1'' \<in> set (fst (handleSaveDocuments ok_backend complete_profile))"
    by (simp add: handleSaveDocuments_def handleSaveDocuments_finish_def u uc)
  have ff: "filter is_upload (concat (map (upload_calls uid) files) @ [AddDoc cn us w]) =
            concat (map (upload_calls uid) files)" for uid files cn us w
    by (induction files) (simp_all add: upload_calls_def)
  have fe: "filter is_upload (filter is_external xs) = filter is_upload xs" for xs
    by (induction xs) (auto elim: is_upload.elims)
  have "filter is_upload (fst (handleSaveDocuments ok_backend complete_profile)) =
        concat (map (upload_calls ''u1'') (file_entries (documents complete_profile)))"
    using arg_cong [OF sent [OF ac], of "filter is_upload"] by (simp only: fe ff)
  then have c: "filter is_upload (fst (handleSaveDocuments ok_backend complete_profile)) =
     concat (map (\<lambda>k. [UploadBytes (storage_path ''u1'' k) (scan_of k),
                        GetDownloadURL (storage_path ''u1'' k)])
       [''rgFile'', ''cpfFile'', ''crmFile'', ''photo'', ''curriculum'', ''criminalRecord'',
        ''ethicalRecord'', ''debtRecord'', ''proofOfResidence'', ''graduationCertificate''])"
    by (simp only: file_entries_complete) (simp add: upload_calls_def)
  have ll: "localStorage reloaded_profile storage_key = Some (stringify complete_documents)"
    by (simp add: reloaded_profile_def initial_profile_state_def)
  have uf: "currentUser failing_backend = Some ''u1''"
    by (simp add: failing_backend_def ok_backend_def)
  have "filter is_upload (fst (handleSaveDocuments failing_backend complete_profile)) =
        uploads_until_throw failing_backend ''u1'' (file_entries (documents complete_profile))"
    using handleSaveDocuments_only_files [OF uf, of complete_profile ?ls "stringify complete_documents"]
    by blast
  then have x: "filter is_upload (fst (handleSaveDocuments failing_backend complete_profile)) =
     [UploadBytes ''documents/u1/rgFile'' (scan_of ''rgFile''),
      GetDownloadURL ''documents/u1/rgFile'',
      UploadBytes ''documents/u1/cpfFile'' (scan_of ''cpfFile'')]"
    by (simp only: file_entries_complete)
       (simp add: failing_backend_def ok_backend_def upload_calls_def storage_path_def)
  from u ll p q r m c x show ?thesis by blast
qed


text \<open>
  Every successful submit resets the step and the document set and removes the stored
  copy, and the render that follows stores the cleared set under the same key again.
\<close>

lemma handleSaveDocuments_success_then_render:
  "Toast DocumentosSalvos \<in> set (fst (handleSaveDocuments b s)) \<Longrightarrow>
   currentStep (snd (handleSaveDocuments b s)) = 0 \<and>
   documents (snd (handleSaveDocuments b s)) = empty_documents \<and>
   localStorage (snd (handleSaveDocuments b s)) storage_key = None \<and>
   localStorage (render (snd (handleSaveDocuments b s))) storage_key =
     Some (stringify empty_documents)"
proof -
  assume t: "Toast DocumentosSalvos \<in> set (fst (handleSaveDocuments b s))"
  then obtain uid where u: "currentUser b = Some uid"
    by (cases "currentUser b") (auto simp: handleSaveDocuments_def handleSaveDocuments_finish_def Let_def)
  obtain evs r where up: "upload_all b uid (documents s) [] = (evs, r)"
    by (cases "upload_all b uid (documents s) []")
  have nt: "Toast DocumentosSalvos \<notin> set evs"
    using upload_all_events [OF up, of "Toast DocumentosSalvos"] by auto
  with t u up obtain urls where "r = Some urls" "addDoc b ''users'' urls uid"
    by (auto simp: handleSaveDocuments_def handleSaveDocuments_finish_def Let_def split: option.splits if_splits)
  with u up show ?thesis
    by (simp add: handleSaveDocuments_def handleSaveDocuments_finish_def handleSaveDocuments_begin_def setDocuments_def
        render_def persist_effect_def Let_def)
qed

text \<open>
  C3: after a fully successful \<open>handleSaveDocuments\<close> (all ten required documents
  uploaded, the record written) the step is 0 and each of the 14 slots is \<^verbatim>\<open>null\<close>. The
  handler removes the \<^verbatim>\<open>localStorage\<close> entry, but it has also replaced \<open>documents\<close>, so
  the persist effect runs after it and writes the entry again: once the page has
  rendered, \<^verbatim>\<open>localStorage\<close> holds the serialised all-\<^verbatim>\<open>null\<close> set under the key, not
  nothing.
\<close>

theorem handleSaveDocuments_success_storage:
  "Toast DocumentosSalvos \<in> set (fst (handleSaveDocuments ok_backend complete_profile)) \<and>
   currentStep (snd (handleSaveDocuments ok_backend complete_profile)) = 0 \<and>
   documents (snd (handleSaveDocuments ok_backend complete_profile)) = empty_documents \<and>
   list_all (\<lambda>(k, v). v = Val JNull) empty_documents \<and>
   localStorage (snd (handleSaveDocuments ok_backend complete_profile)) storage_key = None \<and>
   localStorage (render (snd (handleSaveDocuments ok_backend complete_profile))) storage_key =
     Some (map (\<lambda>k. (k, JNull)) document_keys)"
  by (simp add: handleSaveDocuments_def handleSaveDocuments_finish_def handleSaveDocuments_begin_def setDocuments_def
      render_def persist_effect_def ok_backend_def complete_profile_def complete_documents_def
      empty_documents_def stringify_def document_keys_def requiredDocs_def storage_path_def)

end
